theory Spec2Isabelle
  imports Main "HOL-Library.AList"
begin

section \<open>Download management (src/extensions/download\_management/index.ts)\<close>

text \<open>
  A shallow embedding of the download-management extension: the archive-extension test,
  the directory scan, the file-system change handler, the import of a file, the speed
  callback and the recovery of persisted downloads at startup.

  Conventions. A JavaScript value that may be \<^verbatim>\<open>undefined\<close> is an \<open>option\<close>
  (\<open>None\<close> is \<^verbatim>\<open>undefined\<close>). Byte counts and speeds are integers. The
  object \<^verbatim>\<open>persistent.downloads.files\<close> is an association list in key order, so
  that \<^verbatim>\<open>Object.keys\<close> is \<open>map fst\<close>; the keys of an object are distinct.
  Calls into Node's \<^verbatim>\<open>path\<close> and \<^verbatim>\<open>String\<close> libraries are parameters
  of the model (record \<open>nodelib\<close>), and the outcome of every file-system or dialog call is
  an input of the function that makes the call.
\<close>

subsection \<open>JavaScript numbers and truthiness\<close>

text \<open>
  A number is an integer or \<^verbatim>\<open>NaN\<close>; \<^verbatim>\<open>undefined\<close> converts to
  \<^verbatim>\<open>NaN\<close> in arithmetic.
\<close>

datatype number = Num int | NaN

fun toNumber :: "int option \<Rightarrow> number" where
  "toNumber None = NaN"
| "toNumber (Some n) = Num n"

fun plus_number :: "number \<Rightarrow> number \<Rightarrow> number" where
  "plus_number (Num a) (Num b) = Num (a + b)"
| "plus_number _ _ = NaN"

fun minus_number :: "number \<Rightarrow> number \<Rightarrow> number" where
  "minus_number (Num a) (Num b) = Num (a - b)"
| "minus_number _ _ = NaN"

fun isNaN :: "number \<Rightarrow> bool" where
  "isNaN NaN = True"
| "isNaN (Num _) = False"

text \<open>
  Modelled from the spec: \<^verbatim>\<open>sum\<close> of util/util is not under src/. The spec has
  the sum over all chunks; in JavaScript a sum that meets \<^verbatim>\<open>undefined\<close> is
  \<^verbatim>\<open>NaN\<close>, the case that line 548 of index.ts tests for.
\<close>

definition sum_util :: "number list \<Rightarrow> number" where
  "sum_util xs = foldl plus_number (Num 0) xs"

text \<open>
  Modelled from the spec: \<^verbatim>\<open>truthy\<close> of util/util is not under src/. The spec
  tells the records whose URLs were never retrieved from those whose URLs were resolved;
  the model reads \<^verbatim>\<open>truthy\<close> as JavaScript truthiness, as its name says: of the
  values a string field can hold, \<^verbatim>\<open>undefined\<close> and the empty string are falsy;
  of the values an array field can hold, \<^verbatim>\<open>undefined\<close> is falsy and an array is
  truthy. No property below rests on what it makes of an empty array.
\<close>

definition truthy_string :: "string option \<Rightarrow> bool" where
  "truthy_string v = (case v of None \<Rightarrow> False | Some s \<Rightarrow> s \<noteq> [])"

definition truthy_array :: "'a list option \<Rightarrow> bool" where
  "truthy_array v = (case v of None \<Rightarrow> False | Some _ \<Rightarrow> True)"

subsection \<open>Library functions of Node\<close>

record nodelib =
  extname :: "string \<Rightarrow> string"
  toLowerCase :: "string \<Rightarrow> string"
  join :: "string \<Rightarrow> string \<Rightarrow> string"
  basename :: "string \<Rightarrow> string"

subsection \<open>Known archive extensions\<close>

definition archiveExtLookup :: "string list" where
  "archiveExtLookup =
     [''.zip'', ''.z01'', ''.7z'', ''.rar'', ''.r00'', ''.001'', ''.bz2'', ''.bzip2'',
      ''.gz'', ''.gzip'', ''.xz'', ''.z'', ''.fomod'']"

definition knownArchiveExt :: "nodelib \<Rightarrow> string option \<Rightarrow> bool" where
  "knownArchiveExt L filePath =
     (if \<not> truthy_string filePath then False
      else (case filePath of
              None \<Rightarrow> False
            | Some p \<Rightarrow> toLowerCase L (extname L p) \<in> set archiveExtLookup))"

subsection \<open>The persisted store\<close>

type_synonym dlid = string

text \<open>
  The fields of \<^verbatim>\<open>IDownload\<close> (types/IDownload, not under src/) that index.ts
  reads. Field \<^verbatim>\<open>size\<close> of a download is \<open>size_dl\<close>, of a chunk \<open>size_chunk\<close>.
\<close>

record IChunk =
  size_chunk :: "int option"

record IDownload =
  state :: string
  game :: "string option"
  urls :: "string list option"
  localPath :: "string option"
  size_dl :: "int option"
  received :: "int option"
  chunks :: "IChunk list option"

text \<open>\<^verbatim>\<open>state.persistent.downloads\<close>: the records, the current speed, the speed history.\<close>

record dlstate =
  files :: "(dlid \<times> IDownload) list"
  speed :: "int option"
  speedHistory :: "int list"

text \<open>The actions of actions/state that the modelled functions dispatch.\<close>

datatype action =
    AddLocalDownload dlid "string option" string int
  | RemoveDownload dlid
  | SetDownloadInterrupted dlid int
  | DownloadProgress dlid int int
  | SetDownloadSpeed int
  | SetDownloadSpeeds "int list"
  | SetDownloadModInfo dlid string string
  | SetDownloadHashByFile string string int

text \<open>
  Modelled from the spec: \<^verbatim>\<open>stateReducer\<close> of reducers/state is not under src/.
  The spec has a record created on submission, removed on remove, moved to
  \<open>interrupted\<close> by the interrupted transition with the count that seeds its progress,
  and progress events that carry received and total bytes. The speed actions store the
  speed and the speed history, the two fields index.ts reads back. An action for an id
  that has no record changes nothing (index.ts, line 169: removing a download that was
  already removed does nothing). The mod info and the file hash annotate a record: they
  are not among the fields modelled here, and the two actions that set them leave the
  records and their modelled fields as they are.
\<close>

fun stateReducer :: "dlstate \<Rightarrow> action \<Rightarrow> dlstate" where
  "stateReducer s (AddLocalDownload i g fileName fileSize) =
     s\<lparr>files := AList.update i
        \<lparr>state = ''finished'', game = g, urls = Some [], localPath = Some fileName,
         size_dl = Some fileSize, received = Some fileSize, chunks = Some []\<rparr> (files s)\<rparr>"
| "stateReducer s (RemoveDownload i) = s\<lparr>files := AList.delete i (files s)\<rparr>"
| "stateReducer s (SetDownloadInterrupted i n) =
     s\<lparr>files := AList.map_entry i
        (\<lambda>d. d\<lparr>state := ''interrupted'', received := Some n\<rparr>) (files s)\<rparr>"
| "stateReducer s (DownloadProgress i r t) =
     s\<lparr>files := AList.map_entry i (\<lambda>d. d\<lparr>received := Some r, size_dl := Some t\<rparr>) (files s)\<rparr>"
| "stateReducer s (SetDownloadSpeed v) = s\<lparr>speed := Some v\<rparr>"
| "stateReducer s (SetDownloadSpeeds h) = s\<lparr>speedHistory := h\<rparr>"
| "stateReducer s (SetDownloadModInfo i key v) = s"
| "stateReducer s (SetDownloadHashByFile fileName fileMD5 fileSize) = s"

text \<open>\<^verbatim>\<open>store.dispatch\<close>.\<close>

definition dispatch :: "action \<Rightarrow> dlstate \<Rightarrow> dlstate" where
  "dispatch a s = stateReducer s a"

subsection \<open>Recovery of persisted downloads at startup (init, lines 528 to 560)\<close>

text \<open>
  What the recovery does, in the order it does it: a dispatch, a log entry, or
  \<^verbatim>\<open>fs.removeAsync(p).then(() => store.dispatch(a))\<close>, whose dispatch happens only
  once the removal has succeeded, after the synchronous part has run.
\<close>

datatype effect =
    Dispatch action
  | RemoveAsync string action
  | LogInfo string dlid

text \<open>Lines 545 to 550: the byte count passed to \<^verbatim>\<open>setDownloadInterrupted\<close>.\<close>

definition realSize :: "IDownload \<Rightarrow> int" where
  "realSize d =
     (let r = (if size_dl d \<noteq> Some 0
               then minus_number (toNumber (size_dl d))
                      (sum_util (map (\<lambda>chunk. toNumber (size_chunk chunk))
                                   (case chunks d of None \<Rightarrow> [] | Some cs \<Rightarrow> cs)))
               else Num 0);
          r' = (if isNaN r then Num 0 else r)
      in (case r' of NaN \<Rightarrow> 0 | Num n \<Rightarrow> n))"

text \<open>Lines 532 to 552: the body of the loop over the interrupted downloads.\<close>

definition recoverDownload :: "nodelib \<Rightarrow> string option \<Rightarrow> dlid \<Rightarrow> IDownload \<Rightarrow> effect list" where
  "recoverDownload L downloadPath i d =
     (if \<not> truthy_array (urls d) then
        LogInfo ''download removed because urls were never retrieved'' i #
        (case downloadPath of
           None \<Rightarrow> [Dispatch (RemoveDownload i)]
         | Some dp \<Rightarrow>
             (case localPath d of
                None \<Rightarrow> [Dispatch (RemoveDownload i)]
              | Some lp \<Rightarrow> [RemoveAsync (join L dp lp) (RemoveDownload i)]))
      else [Dispatch (SetDownloadInterrupted i (realSize d))])"

definition interruptedStates :: "string list" where
  "interruptedStates = [''init'', ''started'', ''pending'']"

definition interruptedDownloads :: "(dlid \<times> IDownload) list \<Rightarrow> (dlid \<times> IDownload) list" where
  "interruptedDownloads downloads =
     filter (\<lambda>(i, d). state d \<in> set interruptedStates) downloads"

definition initRecovery :: "nodelib \<Rightarrow> string option \<Rightarrow> (dlid \<times> IDownload) list \<Rightarrow> effect list" where
  "initRecovery L downloadPath downloads =
     concat (map (\<lambda>(i, d). recoverDownload L downloadPath i d) (interruptedDownloads downloads))
     @ map (\<lambda>(i, d). Dispatch (RemoveDownload i))
         (filter (\<lambda>(i, d). \<not> truthy_string (localPath d)) downloads)"

fun syncActions :: "effect list \<Rightarrow> action list" where
  "syncActions [] = []"
| "syncActions (Dispatch a # es) = a # syncActions es"
| "syncActions (_ # es) = syncActions es"

fun removeCalls :: "effect list \<Rightarrow> (string \<times> action) list" where
  "removeCalls [] = []"
| "removeCalls (RemoveAsync p a # es) = (p, a) # removeCalls es"
| "removeCalls (_ # es) = removeCalls es"

text \<open>
  \<open>rm_ok p\<close> says whether \<^verbatim>\<open>fs.removeAsync(p)\<close> succeeds. A removal that fails
  rejects its promise, and nothing handles the rejection: its dispatch does not happen.
  \<open>startup\<close> is the store once every removal has settled: the dispatches of the
  synchronous part, then those of the removals that succeeded.
\<close>

definition settled :: "(string \<Rightarrow> bool) \<Rightarrow> (string \<times> action) list \<Rightarrow> action list" where
  "settled rm_ok calls = map snd (filter (\<lambda>(p, a). rm_ok p) calls)"

definition removedPaths :: "(string \<Rightarrow> bool) \<Rightarrow> effect list \<Rightarrow> string list" where
  "removedPaths rm_ok es = filter rm_ok (map fst (removeCalls es))"

definition startupActions :: "nodelib \<Rightarrow> (string \<Rightarrow> bool) \<Rightarrow> string option \<Rightarrow> dlstate \<Rightarrow> action list" where
  "startupActions L rm_ok downloadPath s =
     (let es = initRecovery L downloadPath (files s)
      in syncActions es @ settled rm_ok (removeCalls es))"

definition startup :: "nodelib \<Rightarrow> (string \<Rightarrow> bool) \<Rightarrow> string option \<Rightarrow> dlstate \<Rightarrow> dlstate" where
  "startup L rm_ok downloadPath s = foldl stateReducer s (startupActions L rm_ok downloadPath s)"

subsection \<open>The clean-up at the head of updateDownloadPath (lines 205 to 214)\<close>

definition removeFinishedWithoutPath :: "dlstate \<Rightarrow> dlstate" where
  "removeFinishedWithoutPath s =
     foldl stateReducer s
       (map (\<lambda>(dlId, d). RemoveDownload dlId)
          (filter (\<lambda>(dlId, d). state d = ''finished'' \<and> \<not> truthy_string (localPath d)) (files s)))"

subsection \<open>The scan of the download directory (refreshDownloads, lines 61 to 82)\<close>

text \<open>
  \<^verbatim>\<open>fs.statAsync\<close> gives the size of a file and whether it is a directory, or fails
  with an error code.
\<close>

datatype stat_result = Stats int bool | StatError string

text \<open>
  \<^verbatim>\<open>Promise.map\<close>: the callback runs for every element; the result is rejected with
  the first error when one of the calls fails.
\<close>

fun promiseMap :: "('a \<Rightarrow> 's \<Rightarrow> string + 's) \<Rightarrow> 'a list \<Rightarrow> 's \<Rightarrow> string option \<times> 's" where
  "promiseMap f [] s = (None, s)"
| "promiseMap f (x # xs) s =
     (case f x s of
        Inl e \<Rightarrow> (Some e, snd (promiseMap f xs s))
      | Inr s' \<Rightarrow> promiseMap f xs s')"

text \<open>
  Lines 68 to 77: the names of the directory that count as downloads, and from them the
  names to add and the known downloads to remove. \<open>statAsync\<close> is asked about each name
  with a known archive extension; a name whose stat fails is dropped.
\<close>

definition downloadNames :: "nodelib \<Rightarrow> (string \<Rightarrow> stat_result) \<Rightarrow> string \<Rightarrow> string list \<Rightarrow> string list" where
  "downloadNames L statAsync downloadPath entries =
     filter (\<lambda>filePath. case statAsync (join L downloadPath filePath) of
                          Stats _ isDirectory \<Rightarrow> \<not> isDirectory
                        | StatError _ \<Rightarrow> False)
       (filter (\<lambda>filePath. knownArchiveExt L (Some filePath)) entries)"

definition addedDLs :: "string list \<Rightarrow> (string \<Rightarrow> string) \<Rightarrow> string list \<Rightarrow> string list" where
  "addedDLs knownDLs normalizeFn names =
     map fst (filter (\<lambda>(name, normalized). normalized \<notin> set knownDLs)
                (zip names (map normalizeFn names)))"

definition removedDLs :: "string list \<Rightarrow> (string \<Rightarrow> string) \<Rightarrow> string list \<Rightarrow> string list" where
  "removedDLs knownDLs normalizeFn names =
     filter (\<lambda>name. name \<notin> set (map normalizeFn names)) knownDLs"

text \<open>
  \<open>writable\<close> is the outcome of \<^verbatim>\<open>fs.ensureDirWritableAsync\<close> (an error code when it
  fails) and \<open>dir\<close> that of \<^verbatim>\<open>fs.readdirAsync\<close>. The removals run only when every
  addition has succeeded.
\<close>

definition refreshDownloads ::
  "nodelib \<Rightarrow> string option \<Rightarrow> string + string list \<Rightarrow> (string \<Rightarrow> stat_result) \<Rightarrow>
   string \<Rightarrow> string list \<Rightarrow> (string \<Rightarrow> string) \<Rightarrow>
   (string \<Rightarrow> 's \<Rightarrow> string + 's) \<Rightarrow> (string \<Rightarrow> 's \<Rightarrow> string + 's) \<Rightarrow> 's \<Rightarrow> string option \<times> 's" where
  "refreshDownloads L writable dir statAsync downloadPath knownDLs normalizeFn
     onAddDownload onRemoveDownload s =
     (case writable of
        Some e \<Rightarrow> (Some e, s)
      | None \<Rightarrow>
          (case dir of
             Inl e \<Rightarrow> (Some e, s)
           | Inr entries \<Rightarrow>
               (let names = downloadNames L statAsync downloadPath entries
                in (case promiseMap onAddDownload (addedDLs knownDLs normalizeFn names) s of
                      (Some e, s') \<Rightarrow> (Some e, s')
                    | (None, s') \<Rightarrow>
                        promiseMap onRemoveDownload (removedDLs knownDLs normalizeFn names) s'))))"

subsection \<open>The change handler of the download directory (lines 116 to 176)\<close>

text \<open>
  The closure of \<^verbatim>\<open>genDownloadChangeHandler\<close> together with what it acts on: the
  store, the map from normalized file names to ids that it shares with
  updateDownloadPath, its \<^verbatim>\<open>updateTimers\<close> object, the file names of the 5000 ms
  timeouts it has set and the timers it has cleared, the ids it has announced as imported,
  and the module's \<^verbatim>\<open>watchEnabled\<close> flag. A lookup in \<^verbatim>\<open>updateTimers\<close> or
  \<^verbatim>\<open>nameIdMap\<close> is a lookup among the object's own properties.
\<close>

record watcher =
  store :: dlstate
  nameIdMap :: "(string \<times> dlid) list"
  updateTimers :: "(string \<times> nat) list"
  timeouts :: "string list"
  clearedTimers :: "nat list"
  imported :: "dlid list"
  watchEnabled :: bool

definition genDownloadChangeHandler :: "dlstate \<Rightarrow> (string \<times> dlid) list \<Rightarrow> bool \<Rightarrow> watcher" where
  "genDownloadChangeHandler s names enabled =
     \<lparr>store = s, nameIdMap = names, updateTimers = [], timeouts = [], clearedTimers = [],
      imported = [], watchEnabled = enabled\<rparr>"

definition findDownload :: "dlstate \<Rightarrow> string \<Rightarrow> dlid option" where
  "findDownload s fileName =
     map_option fst (find (\<lambda>(iterId, d). localPath d = Some fileName) (files s))"

text \<open>
  One call of the handler. \<open>st\<close> is the outcome of
  \<^verbatim>\<open>fs.statAsync(path.join(currentDownloadPath, fileName))\<close> and \<open>newId\<close> the id that
  \<^verbatim>\<open>shortid()\<close> returns, should the call come to them.
\<close>

definition downloadChangeHandler ::
  "nodelib \<Rightarrow> string \<Rightarrow> (string \<Rightarrow> string) \<Rightarrow> stat_result \<Rightarrow> dlid \<Rightarrow>
   string \<Rightarrow> string option \<Rightarrow> watcher \<Rightarrow> watcher" where
  "downloadChangeHandler L gameId normalizeFn st newId evt fileName w =
     (if \<not> watchEnabled w \<or> fileName = None \<or> \<not> knownArchiveExt L fileName then w
      else (case fileName of
              None \<Rightarrow> w
            | Some fn \<Rightarrow>
                if evt = ''update'' then
                  (case map_of (updateTimers w) fn of
                     None \<Rightarrow> w
                   | Some t \<Rightarrow> w\<lparr>clearedTimers := clearedTimers w @ [t],
                                 timeouts := timeouts w @ [fn]\<rparr>)
                else if evt = ''rename'' then
                  (case st of
                     Stats sz isDirectory \<Rightarrow>
                       (case findDownload (store w) fn of
                          None \<Rightarrow>
                            w\<lparr>store := dispatch (AddLocalDownload newId (Some gameId) fn sz) (store w),
                              imported := imported w @ [newId],
                              nameIdMap := AList.update (normalizeFn fn) newId (nameIdMap w)\<rparr>
                        | Some dlId \<Rightarrow>
                            w\<lparr>nameIdMap := AList.update (normalizeFn fn) dlId (nameIdMap w)\<rparr>)
                   | StatError code \<Rightarrow>
                       (if code = ''ENOENT'' then
                          (case map_of (nameIdMap w) (normalizeFn fn) of
                             None \<Rightarrow> w
                           | Some dlId \<Rightarrow> w\<lparr>store := dispatch (RemoveDownload dlId) (store w)\<rparr>)
                        else w))
                else w))"

text \<open>Lines 142 to 150: the callback of a timeout set for \<open>fn\<close>, with the outcome of its stat.\<close>

definition updateTimeout :: "stat_result \<Rightarrow> string \<Rightarrow> watcher \<Rightarrow> watcher" where
  "updateTimeout st fn w =
     (case st of
        StatError _ \<Rightarrow> w
      | Stats sz _ \<Rightarrow>
          (case findDownload (store w) fn of
             None \<Rightarrow> w
           | Some dlId \<Rightarrow> w\<lparr>store := dispatch (DownloadProgress dlId sz sz) (store w)\<rparr>))"

text \<open>
  What happens to the handler over time: the watcher calls it, the oldest pending timeout
  fires, or \<^verbatim>\<open>enable-download-watch\<close> sets the flag (line 489).
\<close>

datatype wevent =
    FsEvent string "string option" stat_result dlid
  | TimeoutFires stat_result
  | EnableDownloadWatch bool

fun watcherStep :: "nodelib \<Rightarrow> string \<Rightarrow> (string \<Rightarrow> string) \<Rightarrow> watcher \<Rightarrow> wevent \<Rightarrow> watcher" where
  "watcherStep L gameId normalizeFn w (FsEvent evt fileName st newId) =
     downloadChangeHandler L gameId normalizeFn st newId evt fileName w"
| "watcherStep L gameId normalizeFn w (TimeoutFires st) =
     (case timeouts w of
        [] \<Rightarrow> w
      | fn # rest \<Rightarrow> updateTimeout st fn (w\<lparr>timeouts := rest\<rparr>))"
| "watcherStep L gameId normalizeFn w (EnableDownloadWatch enabled) = w\<lparr>watchEnabled := enabled\<rparr>"

subsection \<open>updateDownloadPath (lines 200 to 285)\<close>

text \<open>
  What updateDownloadPath gets from outside: the active game, the download path of a
  game, the first game of a record (\<^verbatim>\<open>getDownloadGames(download)[0]\<close>;
  util/getDownloadGames is not under src/), the outcomes of \<^verbatim>\<open>getNormalizeFunc\<close>,
  \<^verbatim>\<open>fs.ensureDirWritableAsync\<close> and \<^verbatim>\<open>fs.readdirAsync\<close>, the stat of a path
  during the scan and, later, when the file is added, and the id that \<^verbatim>\<open>shortid()\<close>
  returns when a file is added.
\<close>

record pathEnv =
  activeGame :: "string option"
  pathForGame :: "string \<Rightarrow> string"
  firstGame :: "IDownload \<Rightarrow> string option"
  normalizeOutcome :: "string + (string \<Rightarrow> string)"
  writableOutcome :: "string option"
  readdirOutcome :: "string + string list"
  scanStat :: "string \<Rightarrow> stat_result"
  addStat :: "string \<Rightarrow> stat_result"
  newIdFor :: "string \<Rightarrow> dlid"

text \<open>Lines 231 to 236: the ids by normalized file name; a later record overrides an earlier one.\<close>

definition buildNameIdMap :: "(string \<Rightarrow> string) \<Rightarrow> (dlid \<times> IDownload) list \<Rightarrow> (string \<times> dlid) list" where
  "buildNameIdMap normalizeFn downloads =
     foldl (\<lambda>prev (dlId, d). case localPath d of
                                None \<Rightarrow> prev
                              | Some lp \<Rightarrow> AList.update (normalizeFn lp) dlId prev)
       [] downloads"

text \<open>Lines 241 to 244: the normalized names of the downloads of the game (\<^verbatim>\<open>localPath || ''\<close>).\<close>

definition knownDownloads ::
  "pathEnv \<Rightarrow> string \<Rightarrow> (string \<Rightarrow> string) \<Rightarrow> (dlid \<times> IDownload) list \<Rightarrow> string list" where
  "knownDownloads E gameId normalizeFn downloads =
     map (\<lambda>(dlId, d). normalizeFn (case localPath d of None \<Rightarrow> [] | Some lp \<Rightarrow> lp))
       (filter (\<lambda>(dlId, d). firstGame E d = Some gameId) downloads)"

text \<open>
  Lines 247 to 258: the two callbacks handed to refreshDownloads, acting on the store and
  on \<^verbatim>\<open>nameIdMap\<close>. A name that \<^verbatim>\<open>nameIdMap\<close> does not hold gives
  \<^verbatim>\<open>removeDownload(undefined)\<close>, which has no record to remove.
\<close>

definition onAddDownload ::
  "nodelib \<Rightarrow> pathEnv \<Rightarrow> string \<Rightarrow> string \<Rightarrow> (string \<Rightarrow> string) \<Rightarrow> string \<Rightarrow>
   dlstate \<times> (string \<times> dlid) list \<Rightarrow> string + dlstate \<times> (string \<times> dlid) list" where
  "onAddDownload L E currentDownloadPath gameId normalizeFn fileName sm =
     (case addStat E (join L currentDownloadPath fileName) of
        StatError e \<Rightarrow> Inl e
      | Stats sz _ \<Rightarrow>
          Inr (dispatch (AddLocalDownload (newIdFor E fileName) (Some gameId) fileName sz) (fst sm),
               AList.update (normalizeFn fileName) (newIdFor E fileName) (snd sm)))"

definition onRemoveDownload ::
  "string \<Rightarrow> dlstate \<times> (string \<times> dlid) list \<Rightarrow> string + dlstate \<times> (string \<times> dlid) list" where
  "onRemoveDownload fileName sm =
     (case map_of (snd sm) fileName of
        None \<Rightarrow> Inr sm
      | Some dlId \<Rightarrow> Inr (dispatch (RemoveDownload dlId) (fst sm), snd sm))"

text \<open>
  The whole function. \<open>downloads\<close> is the snapshot of line 205, which line 216 reads
  again from the same state, so it still holds the records that the clean-up removed. An
  error of the scan is reported and the new handler, with the new \<^verbatim>\<open>nameIdMap\<close> and a
  fresh \<^verbatim>\<open>updateTimers\<close>, is installed all the same; without a game or a normalize
  function nothing follows the clean-up.
\<close>

definition updateDownloadPath :: "nodelib \<Rightarrow> pathEnv \<Rightarrow> string option \<Rightarrow> watcher \<Rightarrow> watcher" where
  "updateDownloadPath L E gameIdArg w =
     (let downloads = files (store w);
          s1 = removeFinishedWithoutPath (store w)
      in (case (case gameIdArg of None \<Rightarrow> activeGame E | Some g \<Rightarrow> Some g) of
            None \<Rightarrow> w\<lparr>store := s1\<rparr>
          | Some gameId \<Rightarrow>
              (case normalizeOutcome E of
                 Inl err \<Rightarrow> w\<lparr>store := s1\<rparr>
               | Inr normalizeFn \<Rightarrow>
                   (let currentDownloadPath = pathForGame E gameId;
                        sm = snd (refreshDownloads L (writableOutcome E) (readdirOutcome E)
                                    (scanStat E) currentDownloadPath
                                    (knownDownloads E gameId normalizeFn downloads) normalizeFn
                                    (onAddDownload L E currentDownloadPath gameId normalizeFn)
                                    onRemoveDownload
                                    (s1, buildNameIdMap normalizeFn downloads))
                    in w\<lparr>store := fst sm, nameIdMap := snd sm, updateTimers := []\<rparr>))))"

subsection \<open>Importing a file (removeArchive, queryReplace and move, lines 291 to 346)\<close>

text \<open>
  The outcomes of the calls that \<^verbatim>\<open>move\<close> makes, in the order it makes them: the stat
  of the destination, the button chosen in the dialog, the removal of the existing
  archive, the copy, and the stat of the copied file.
\<close>

record moveOutcomes =
  destinationStat :: stat_result
  dialogAction :: string
  removeOk :: bool
  copyOk :: bool
  copiedStat :: stat_result

definition removeArchive :: "nodelib \<Rightarrow> bool \<Rightarrow> dlstate \<Rightarrow> string \<Rightarrow> string + dlstate" where
  "removeArchive L ok s destination =
     (if \<not> ok then Inl ''remove failed''
      else Inr (foldl stateReducer s
                  (map (\<lambda>(dlId, d). RemoveDownload dlId)
                     (filter (\<lambda>(dlId, d). localPath d = Some (basename L destination)) (files s)))))"

definition queryReplace :: "nodelib \<Rightarrow> moveOutcomes \<Rightarrow> dlstate \<Rightarrow> string \<Rightarrow> string + dlstate" where
  "queryReplace L out s destination =
     (if dialogAction out = ''Cancel'' then Inl ''UserCanceled''
      else removeArchive L (removeOk out) s destination)"

text \<open>The result of \<^verbatim>\<open>move\<close>: the store, the ids announced, and whether the import failed.\<close>

record moveResult =
  resultStore :: dlstate
  announced :: "dlid list"
  failed :: bool

definition moveFailed :: "dlid \<Rightarrow> dlstate \<Rightarrow> moveResult" where
  "moveFailed dlId s =
     \<lparr>resultStore = dispatch (RemoveDownload dlId) s, announced = [], failed = True\<rparr>"

definition move ::
  "nodelib \<Rightarrow> moveOutcomes \<Rightarrow> string option \<Rightarrow> dlid \<Rightarrow> string \<Rightarrow> string \<Rightarrow> dlstate \<Rightarrow> moveResult" where
  "move L out gameMode dlId source destination s =
     (case (case destinationStat out of
              StatError _ \<Rightarrow> Inr s
            | Stats _ _ \<Rightarrow> queryReplace L out s destination) of
        Inl err \<Rightarrow> moveFailed dlId s
      | Inr s1 \<Rightarrow>
          (let s2 = dispatch (AddLocalDownload dlId gameMode (basename L destination) 0) s1
           in if \<not> copyOk out then moveFailed dlId s2
              else (case copiedStat out of
                      StatError _ \<Rightarrow> moveFailed dlId s2
                    | Stats sz _ \<Rightarrow>
                        \<lparr>resultStore = dispatch (DownloadProgress dlId sz sz) s2,
                         announced = [dlId], failed = False\<rparr>)))"

subsection \<open>The throughput meter\<close>



subsection \<open>The speed callback of the download manager (init, lines 509 to 524)\<close>

text \<open>
  The callback: the new store, and whether \<^verbatim>\<open>speedsDebouncer.schedule()\<close> was called.
\<close>

definition speedCallback :: "int \<Rightarrow> dlstate \<Rightarrow> dlstate \<times> bool" where
  "speedCallback v s =
     (if v \<noteq> 0 \<or> speed s \<noteq> Some 0 then (dispatch (SetDownloadSpeed v) s, True)
      else (s, False))"

subsection \<open>The speed reports over time (init, lines 509 to 524)\<close>

text \<open>
  Modelled from the spec: the class \<^verbatim>\<open>Debouncer\<close> of util/Debouncer is not under src/.
  The spec has the reporting throttled to a fixed interval. index.ts constructs the
  debouncer with an interval of 10000 ms and the flag \<^verbatim>\<open>reset = false\<close> (line 513) and
  only ever calls \<^verbatim>\<open>schedule()\<close>. In the model \<open>schedule\<close> starts the timer of the
  interval unless one is running, a running timer is not restarted, and when the timer
  expires the debounced function runs once. Times are in milliseconds.
\<close>

record debouncer =
  debounceMS :: nat
  timer :: "nat option"

definition newDebouncer :: "nat \<Rightarrow> debouncer" where
  "newDebouncer ms = \<lparr>debounceMS = ms, timer = None\<rparr>"

definition schedule :: "nat \<Rightarrow> debouncer \<Rightarrow> debouncer" where
  "schedule now db =
     (case timer db of
        None \<Rightarrow> db\<lparr>timer := Some (now + debounceMS db)\<rparr>
      | Some _ \<Rightarrow> db)"

text \<open>
  The store, the debouncer of line 510, and the actions dispatched so far with the time of
  each dispatch.
\<close>

record reporter =
  reporterStore :: dlstate
  speedsDebouncer :: debouncer
  dispatched :: "(nat \<times> action) list"

definition initReporter :: "dlstate \<Rightarrow> reporter" where
  "initReporter s = \<lparr>reporterStore = s, speedsDebouncer = newDebouncer 10000, dispatched = []\<rparr>"

text \<open>
  Time passes until \<open>now\<close>: a timer that was due by then has expired, and the debounced
  function (lines 510 to 513) has dispatched the speed history at the time it was due.
\<close>

definition elapse :: "nat \<Rightarrow> reporter \<Rightarrow> reporter" where
  "elapse now r =
     (case timer (speedsDebouncer r) of
        None \<Rightarrow> r
      | Some due \<Rightarrow>
          if due \<le> now
          then r\<lparr>reporterStore :=
                   dispatch (SetDownloadSpeeds (speedHistory (reporterStore r))) (reporterStore r),
                 speedsDebouncer := (speedsDebouncer r)\<lparr>timer := None\<rparr>,
                 dispatched := dispatched r @
                   [(due, SetDownloadSpeeds (speedHistory (reporterStore r)))]\<rparr>
          else r)"

text \<open>The download manager delivers the speed \<open>v\<close> at time \<open>now\<close> (lines 517 to 523).\<close>

definition onSpeed :: "nat \<Rightarrow> int \<Rightarrow> reporter \<Rightarrow> reporter" where
  "onSpeed now v r =
     (let r1 = elapse now r;
          (s, scheduled) = speedCallback v (reporterStore r1)
      in r1\<lparr>reporterStore := s,
             speedsDebouncer := (if scheduled then schedule now (speedsDebouncer r1)
                                 else speedsDebouncer r1),
             dispatched := dispatched r1 @ (if scheduled then [(now, SetDownloadSpeed v)] else [])\<rparr>)"

definition reporterAfter :: "(nat \<times> int) list \<Rightarrow> reporter \<Rightarrow> reporter" where
  "reporterAfter calls r = foldl (\<lambda>r (now, v). onSpeed now v r) r calls"

text \<open>The times at which the speed history was dispatched.\<close>

definition isSpeedsReport :: "action \<Rightarrow> bool" where
  "isSpeedsReport a = (case a of SetDownloadSpeeds _ \<Rightarrow> True | _ \<Rightarrow> False)"

definition reportTimes :: "reporter \<Rightarrow> nat list" where
  "reportTimes r = map fst (filter (\<lambda>(t, a). isSpeedsReport a) (dispatched r))"

text \<open>Consecutive times of a list are at least \<open>k\<close> apart.\<close>

fun spaced :: "nat \<Rightarrow> nat list \<Rightarrow> bool" where
  "spaced k [] = True"
| "spaced k [t] = True"
| "spaced k (t # u # ts) = (t + k \<le> u \<and> spaced k (u # ts))"

subsection \<open>The operations of index.ts on the store\<close>

text \<open>
  The operations modelled above, with what each gets from outside: the recovery at
  startup, updateDownloadPath, an event of the change handler made for a game and a
  normalize function, the import of a file, a speed delivered by the download manager, and
  the debounced report of the speed history (lines 510 to 513), the mod info that the
  lookup of the meta database found for a record (lines 463 to 474: the game, the
  version, and the name when there is one), and a calculated file hash (lines 483 to
  487). These are all the places of index.ts that dispatch to the store.
\<close>

datatype operation =
    Startup "string \<Rightarrow> bool" "string option"
  | UpdateDownloadPath pathEnv "string option"
  | HandlerEvent string "string \<Rightarrow> string" wevent
  | Import moveOutcomes "string option" dlid string string
  | SpeedDelivered int
  | SpeedsReported
  | ModInfoFound dlid string string "string option"
  | FileHashCalculated string string int

fun perform :: "nodelib \<Rightarrow> watcher \<Rightarrow> operation \<Rightarrow> watcher" where
  "perform L w (Startup rm_ok downloadPath) = w\<lparr>store := startup L rm_ok downloadPath (store w)\<rparr>"
| "perform L w (UpdateDownloadPath E gameIdArg) = updateDownloadPath L E gameIdArg w"
| "perform L w (HandlerEvent gameId normalizeFn e) = watcherStep L gameId normalizeFn w e"
| "perform L w (Import out gameMode dlId source destination) =
     w\<lparr>store := resultStore (move L out gameMode dlId source destination (store w))\<rparr>"
| "perform L w (SpeedDelivered v) = w\<lparr>store := fst (speedCallback v (store w))\<rparr>"
| "perform L w SpeedsReported =
     w\<lparr>store := dispatch (SetDownloadSpeeds (speedHistory (store w))) (store w)\<rparr>"
| "perform L w (ModInfoFound dlId gameId fileVersion name) =
     (let s1 = dispatch (SetDownloadModInfo dlId ''game'' gameId) (store w);
          s2 = dispatch (SetDownloadModInfo dlId ''version'' fileVersion) s1
      in w\<lparr>store := (case name of
                        None \<Rightarrow> s2
                      | Some n \<Rightarrow> if n = [] then s2
                                  else dispatch (SetDownloadModInfo dlId ''name'' n) s2)\<rparr>)"
| "perform L w (FileHashCalculated filePath fileMD5 fileSize) =
     w\<lparr>store := dispatch (SetDownloadHashByFile (basename L filePath) fileMD5 fileSize) (store w)\<rparr>"

subsection \<open>Notions used to state the properties of the recovery\<close>

text \<open>The chunks of a record (\<^verbatim>\<open>chunks || []\<close>), whether each has a numeric size, and their sum.\<close>

definition chunkList :: "IDownload \<Rightarrow> IChunk list" where
  "chunkList d = (case chunks d of None \<Rightarrow> [] | Some cs \<Rightarrow> cs)"

definition chunksNumeric :: "IDownload \<Rightarrow> bool" where
  "chunksNumeric d = list_all (\<lambda>c. size_chunk c \<noteq> None) (chunkList d)"

definition chunkTotal :: "IDownload \<Rightarrow> int" where
  "chunkTotal d =
     sum_list (map (\<lambda>c. case size_chunk c of None \<Rightarrow> 0 | Some n \<Rightarrow> n) (chunkList d))"

text \<open>The record an action is addressed to, and what an action does to the record of id \<open>i\<close>.\<close>

fun target :: "action \<Rightarrow> dlid option" where
  "target (AddLocalDownload i _ _ _) = Some i"
| "target (RemoveDownload i) = Some i"
| "target (SetDownloadInterrupted i _) = Some i"
| "target (DownloadProgress i _ _) = Some i"
| "target (SetDownloadSpeed _) = None"
| "target (SetDownloadSpeeds _) = None"
| "target (SetDownloadModInfo i _ _) = Some i"
| "target (SetDownloadHashByFile _ _ _) = None"

fun actOn :: "dlid \<Rightarrow> IDownload option \<Rightarrow> action \<Rightarrow> IDownload option" where
  "actOn i r (AddLocalDownload j g fileName fileSize) =
     (if j = i
      then Some \<lparr>state = ''finished'', game = g, urls = Some [], localPath = Some fileName,
                 size_dl = Some fileSize, received = Some fileSize, chunks = Some []\<rparr>
      else r)"
| "actOn i r (RemoveDownload j) = (if j = i then None else r)"
| "actOn i r (SetDownloadInterrupted j n) =
     (if j = i then map_option (\<lambda>d. d\<lparr>state := ''interrupted'', received := Some n\<rparr>) r else r)"
| "actOn i r (DownloadProgress j rc t) =
     (if j = i then map_option (\<lambda>d. d\<lparr>received := Some rc, size_dl := Some t\<rparr>) r else r)"
| "actOn i r (SetDownloadSpeed _) = r"
| "actOn i r (SetDownloadSpeeds _) = r"
| "actOn i r (SetDownloadModInfo _ _ _) = r"
| "actOn i r (SetDownloadHashByFile _ _ _) = r"

text \<open>What the recovery makes of one record \<open>d\<close> of the store: \<open>None\<close> when it is removed.\<close>

definition startupRecord :: "nodelib \<Rightarrow> (string \<Rightarrow> bool) \<Rightarrow> string option \<Rightarrow> IDownload \<Rightarrow> IDownload option" where
  "startupRecord L rm_ok downloadPath d =
     (if \<not> truthy_string (localPath d) then None
      else if state d \<notin> set interruptedStates then Some d
      else if truthy_array (urls d)
      then Some (d\<lparr>state := ''interrupted'', received := Some (realSize d)\<rparr>)
      else (case downloadPath of
              None \<Rightarrow> None
            | Some p \<Rightarrow>
                (case localPath d of
                   None \<Rightarrow> None
                 | Some lp \<Rightarrow> if rm_ok (join L p lp) then None else Some d)))"

text \<open>The records of the recovery's first branch: interrupted before any URL was retrieved.\<close>

definition neverStarted :: "IDownload \<Rightarrow> bool" where
  "neverStarted d = (state d \<in> set interruptedStates \<and> \<not> truthy_array (urls d))"

text \<open>Whether the recovery removes a record \<open>d\<close> of the store.\<close>

definition startupRemoves :: "nodelib \<Rightarrow> (string \<Rightarrow> bool) \<Rightarrow> string option \<Rightarrow> IDownload \<Rightarrow> bool" where
  "startupRemoves L rm_ok downloadPath d =
     (\<not> truthy_string (localPath d) \<or>
      (state d \<in> set interruptedStates \<and> \<not> truthy_array (urls d)) \<and>
        (case downloadPath of
           None \<Rightarrow> True
         | Some p \<Rightarrow> (case localPath d of None \<Rightarrow> True | Some lp \<Rightarrow> rm_ok (join L p lp))))"

text \<open>The handler after a sequence of events, and the events that are \<^verbatim>\<open>update\<close> calls.\<close>

definition watcherAfter :: "nodelib \<Rightarrow> string \<Rightarrow> (string \<Rightarrow> string) \<Rightarrow> watcher \<Rightarrow> wevent list \<Rightarrow> watcher" where
  "watcherAfter L gameId normalizeFn w evs = foldl (watcherStep L gameId normalizeFn) w evs"

definition isUpdateEvent :: "wevent \<Rightarrow> bool" where
  "isUpdateEvent e = (case e of FsEvent evt _ _ _ \<Rightarrow> evt = ''update'' | _ \<Rightarrow> False)"

text \<open>
  Whether \<^verbatim>\<open>move\<close> replaced an archive: the destination existed, the dialog was
  not cancelled, and the removal of the existing archive succeeded.
\<close>

definition replaced :: "moveOutcomes \<Rightarrow> bool" where
  "replaced out = ((case destinationStat out of Stats _ _ \<Rightarrow> True | StatError _ \<Rightarrow> False) \<and>
                   dialogAction out \<noteq> ''Cancel'' \<and> removeOk out)"

text \<open>
  The invariants of the reporter at time \<open>n\<close>: the reports so far are at least 10000 ms
  apart and not later than \<open>n\<close>, and a running timer is due at least 10000 ms after each of
  them; every report and a running timer come 10000 ms after a call at a time of \<open>C\<close>.
\<close>

definition throttled :: "nat \<Rightarrow> reporter \<Rightarrow> bool" where
  "throttled n r =
     (spaced 10000 (reportTimes r) \<and> (\<forall>t \<in> set (reportTimes r). t \<le> n) \<and>
      debounceMS (speedsDebouncer r) = 10000 \<and>
      (\<forall>due. timer (speedsDebouncer r) = Some due \<longrightarrow>
         (\<forall>t \<in> set (reportTimes r). t + 10000 \<le> due)))"

definition armedBy :: "nat set \<Rightarrow> reporter \<Rightarrow> bool" where
  "armedBy C r =
     ((\<forall>t \<in> set (reportTimes r). \<exists>c \<in> C. t = c + 10000) \<and>
      debounceMS (speedsDebouncer r) = 10000 \<and>
      (\<forall>due. timer (speedsDebouncer r) = Some due \<longrightarrow> (\<exists>c \<in> C. due = c + 10000)))"

text \<open>
  Whether the directory scan of updateDownloadPath removes the record of id \<open>i\<close>: the
  scan gets as far as its removals (a game, a normalize function, a writable directory
  that can be read, and every addition succeeds), and \<^verbatim>\<open>nameIdMap\<close> holds \<open>i\<close> for
  a known download of the game whose normalized name is not the normalized name of an
  archive file of the directory.
\<close>

definition scanRemoves ::
  "nodelib \<Rightarrow> pathEnv \<Rightarrow> string option \<Rightarrow> (dlid \<times> IDownload) list \<Rightarrow> dlid \<Rightarrow> bool" where
  "scanRemoves L E gameIdArg downloads i =
     (case (case gameIdArg of None \<Rightarrow> activeGame E | Some g \<Rightarrow> Some g) of
        None \<Rightarrow> False
      | Some gameId \<Rightarrow>
          (case normalizeOutcome E of
             Inl err \<Rightarrow> False
           | Inr normalizeFn \<Rightarrow>
               (case writableOutcome E of
                  Some err \<Rightarrow> False
                | None \<Rightarrow>
                    (case readdirOutcome E of
                       Inl err \<Rightarrow> False
                     | Inr entries \<Rightarrow>
                         (let archives = downloadNames L (scanStat E) (pathForGame E gameId) entries;
                              knownDLs = knownDownloads E gameId normalizeFn downloads
                          in list_all (\<lambda>f. case addStat E (join L (pathForGame E gameId) f) of
                                             Stats _ _ \<Rightarrow> True
                                           | StatError _ \<Rightarrow> False)
                               (addedDLs knownDLs normalizeFn archives)
                             \<and> list_ex (\<lambda>name. map_of (buildNameIdMap normalizeFn downloads) name = Some i)
                                 (removedDLs knownDLs normalizeFn archives))))))"

text \<open>
  Whether an operation removes the record \<open>d\<close> of id \<open>i\<close>, and the condition on
  \<^verbatim>\<open>shortid\<close> under which this is exact: the ids it generates are not ids of the store.
\<close>

fun removes :: "nodelib \<Rightarrow> watcher \<Rightarrow> operation \<Rightarrow> dlid \<Rightarrow> IDownload \<Rightarrow> bool" where
  "removes L w (Startup rm_ok downloadPath) i d = startupRemoves L rm_ok downloadPath d"
| "removes L w (UpdateDownloadPath E gameIdArg) i d =
     ((state d = ''finished'' \<and> \<not> truthy_string (localPath d)) \<or>
      scanRemoves L E gameIdArg (files (store w)) i)"
| "removes L w (HandlerEvent gameId normalizeFn (FsEvent evt fileName st newId)) i d =
     (watchEnabled w \<and> knownArchiveExt L fileName \<and> evt = ''rename'' \<and>
      st = StatError ''ENOENT'' \<and>
      (case fileName of
         None \<Rightarrow> False
       | Some fn \<Rightarrow> map_of (nameIdMap w) (normalizeFn fn) = Some i))"
| "removes L w (HandlerEvent gameId normalizeFn (TimeoutFires st)) i d = False"
| "removes L w (HandlerEvent gameId normalizeFn (EnableDownloadWatch enabled)) i d = False"
| "removes L w (Import out gameMode dlId source destination) i d =
     (replaced out \<and> localPath d = Some (basename L destination))"
| "removes L w (SpeedDelivered v) i d = False"
| "removes L w SpeedsReported i d = False"
| "removes L w (ModInfoFound dlId gameId fileVersion name) i d = False"
| "removes L w (FileHashCalculated filePath fileMD5 fileSize) i d = False"

fun idsFresh :: "watcher \<Rightarrow> operation \<Rightarrow> bool" where
  "idsFresh w (UpdateDownloadPath E gameIdArg) =
     (\<forall>f. newIdFor E f \<notin> fst ` set (files (store w)))"
| "idsFresh w (Import out gameMode dlId source destination) =
     (dlId \<notin> fst ` set (files (store w)))"
| "idsFresh w _ = True"

subsection \<open>An instance of the library and a store, for the worked examples\<close>

text \<open>
  Paths with \<^verbatim>\<open>/\<close> as the separator and no trailing separator: the last segment,
  its extension from the last dot (none when the only dot leads the segment), two segments
  joined (an empty segment is left out, as \<^verbatim>\<open>path.join\<close> does), and ASCII letters
  lowered.
\<close>

definition lastSegment :: "string \<Rightarrow> string" where
  "lastSegment p = rev (takeWhile (\<lambda>c. c \<noteq> CHR ''/'') (rev p))"

definition dotSuffix :: "string \<Rightarrow> string" where
  "dotSuffix p =
     (let b = lastSegment p; e = rev (takeWhile (\<lambda>c. c \<noteq> CHR ''.'') (rev b))
      in if CHR ''.'' \<notin> set b \<or> Suc (length e) = length b then [] else CHR ''.'' # e)"

definition lowerAscii :: "string \<Rightarrow> string" where
  "lowerAscii =
     map (\<lambda>c. case map_of (zip ''ABCDEFGHIJKLMNOPQRSTUVWXYZ'' ''abcdefghijklmnopqrstuvwxyz'') c of
                None \<Rightarrow> c | Some l \<Rightarrow> l)"

definition joinSegments :: "string \<Rightarrow> string \<Rightarrow> string" where
  "joinSegments a b = (if b = [] then a else if a = [] then b else a @ ''/'' @ b)"

definition exampleLib :: nodelib where
  "exampleLib =
     \<lparr>extname = dotSuffix, toLowerCase = lowerAscii,
      join = joinSegments, basename = lastSegment\<rparr>"

definition pausedUnresolved :: IDownload where
  "pausedUnresolved =
     \<lparr>state = ''paused'', game = Some ''skyrim'', urls = None, localPath = Some ''a.zip'',
      size_dl = Some 100, received = Some 40, chunks = None\<rparr>"

definition initUnresolved :: IDownload where
  "initUnresolved =
     \<lparr>state = ''init'', game = Some ''skyrim'', urls = None, localPath = Some ''b.zip'',
      size_dl = None, received = None, chunks = None\<rparr>"

definition startedResolved :: IDownload where
  "startedResolved =
     \<lparr>state = ''started'', game = Some ''skyrim'', urls = Some [''http://host/c.zip''],
      localPath = Some ''c.zip'', size_dl = Some 1000, received = Some 0,
      chunks = Some [\<lparr>size_chunk = Some 300\<rparr>, \<lparr>size_chunk = Some 200\<rparr>]\<rparr>"

definition finishedNoPath :: IDownload where
  "finishedNoPath =
     \<lparr>state = ''finished'', game = Some ''skyrim'', urls = Some [''http://host/d.zip''],
      localPath = None, size_dl = Some 10, received = Some 10, chunks = Some []\<rparr>"

definition pausedResolved :: IDownload where
  "pausedResolved =
     \<lparr>state = ''paused'', game = Some ''skyrim'', urls = Some [''http://host/e.zip''],
      localPath = Some ''e.zip'', size_dl = Some 100, received = Some 40, chunks = Some []\<rparr>"

definition startedOvercounted :: IDownload where
  "startedOvercounted =
     \<lparr>state = ''started'', game = Some ''skyrim'', urls = Some [''http://host/f.zip''],
      localPath = Some ''f.zip'', size_dl = Some 100, received = Some 0,
      chunks = Some [\<lparr>size_chunk = Some 150\<rparr>]\<rparr>"

definition exampleStore :: dlstate where
  "exampleStore =
     \<lparr>files = [(''dl1'', pausedUnresolved), (''dl2'', initUnresolved), (''dl3'', startedResolved),
               (''dl4'', finishedNoPath), (''dl5'', pausedResolved), (''dl6'', startedOvercounted)],
      speed = None, speedHistory = []\<rparr>"

text \<open>Every removal of a file succeeds, or every removal fails.\<close>

definition removalSucceeds :: "string \<Rightarrow> bool" where
  "removalSucceeds p = True"

definition removalFails :: "string \<Rightarrow> bool" where
  "removalFails p = False"

definition exampleWatcher :: watcher where
  "exampleWatcher =
     genDownloadChangeHandler exampleStore [(''a.zip'', ''dl1''), (''c.zip'', ''dl3'')] True"

definition exampleEvents :: "wevent list" where
  "exampleEvents =
     [FsEvent ''update'' (Some ''c.zip'') (Stats 700 False) ''new1'',
      TimeoutFires (Stats 700 False),
      FsEvent ''rename'' (Some ''G.ZIP'') (Stats 5 False) ''new2'',
      EnableDownloadWatch True]"

text \<open>An import onto the existing archive \<open>c.zip\<close>: replaced, and then the copy fails.\<close>

definition replaceThenCopyFails :: moveOutcomes where
  "replaceThenCopyFails =
     \<lparr>destinationStat = Stats 700 False, dialogAction = ''Replace'', removeOk = True,
      copyOk = False, copiedStat = StatError ''ENOENT''\<rparr>"

text \<open>An import to a new name whose copy fails.\<close>

definition copyFails :: moveOutcomes where
  "copyFails =
     \<lparr>destinationStat = StatError ''ENOENT'', dialogAction = ''Cancel'', removeOk = False,
      copyOk = False, copiedStat = StatError ''ENOENT''\<rparr>"

text \<open>A download directory: a sub-directory with an archive name, and a name whose stat fails.\<close>

definition exampleStat :: "string \<Rightarrow> stat_result" where
  "exampleStat p = (if p = ''/downloads/sub.7z'' then Stats 0 True
                    else if p = ''/downloads/gone.rar'' then StatError ''ENOENT''
                    else Stats 100 False)"

definition exampleEntries :: "string list" where
  "exampleEntries = [''a.zip'', ''notes.txt'', ''sub.7z'', ''New.ZIP'', ''gone.rar'', ''.zip'']"

text \<open>Speeds delivered at their times, three of them within one interval.\<close>

definition exampleCalls :: "(nat \<times> int) list" where
  "exampleCalls = [(0, 100), (500, 200), (9999, 0), (10000, 5), (10001, 0), (10002, 0), (30000, 9)]"

text \<open>
  A record interrupted before its URLs were retrieved whose \<open>localPath\<close> is the empty
  string, beside a paused download whose file \<open>e.zip\<close> is in the download directory.
\<close>

definition initEmptyPath :: IDownload where
  "initEmptyPath =
     \<lparr>state = ''init'', game = Some ''skyrim'', urls = None, localPath = Some [],
      size_dl = None, received = None, chunks = None\<rparr>"

definition emptyPathStore :: dlstate where
  "emptyPathStore =
     \<lparr>files = [(''dl7'', initEmptyPath), (''dl5'', pausedResolved)],
      speed = None, speedHistory = []\<rparr>"

text \<open>
  A download directory of the game that holds every archive of the store but \<open>c.zip\<close>,
  and a new archive.
\<close>

definition examplePathEnv :: pathEnv where
  "examplePathEnv =
     \<lparr>activeGame = Some ''skyrim'', pathForGame = (\<lambda>g. ''/downloads''), firstGame = game,
      normalizeOutcome = Inr lowerAscii, writableOutcome = None,
      readdirOutcome = Inr [''a.zip'', ''b.zip'', ''e.zip'', ''f.zip'', ''New.ZIP'', ''notes.txt''],
      scanStat = (\<lambda>p. Stats 100 False), addStat = (\<lambda>p. Stats 100 False),
      newIdFor = (\<lambda>f. ''id-'' @ f)\<rparr>"



section \<open>Properties\<close>

subsection \<open>The byte count of an interrupted download\<close>

lemma foldl_plus_NaN: "foldl plus_number NaN xs = NaN"
  by (induction xs) simp_all

lemma foldl_plus_Num:
  "foldl plus_number (Num a) (map (\<lambda>c. toNumber (size_chunk c)) cs) =
     (if list_all (\<lambda>c. size_chunk c \<noteq> None) cs
      then Num (a + sum_list (map (\<lambda>c. case size_chunk c of None \<Rightarrow> 0 | Some n \<Rightarrow> n) cs))
      else NaN)"
proof (induction cs arbitrary: a)
  case Nil
  show ?case by simp
next
  case (Cons c cs)
  show ?case
  proof (cases "size_chunk c")
    case None
    then show ?thesis by (simp add: foldl_plus_NaN)
  next
    case (Some n)
    then show ?thesis using Cons.IH [of "a + n"] by (simp add: add.assoc)
  qed
qed

lemma sum_util_chunks:
  "sum_util (map (\<lambda>c. toNumber (size_chunk c)) (chunkList d)) =
     (if chunksNumeric d then Num (chunkTotal d) else NaN)"
  unfolding sum_util_def chunksNumeric_def chunkTotal_def
  by (simp add: foldl_plus_Num)

lemma realSize_eq:
  "realSize d =
     (case size_dl d of
        None \<Rightarrow> 0
      | Some t \<Rightarrow> if t \<noteq> 0 \<and> chunksNumeric d then t - chunkTotal d else 0)"
proof -
  have "realSize d =
     (let r = (if size_dl d \<noteq> Some 0
               then minus_number (toNumber (size_dl d))
                      (sum_util (map (\<lambda>chunk. toNumber (size_chunk chunk)) (chunkList d)))
               else Num 0);
          r' = (if isNaN r then Num 0 else r)
      in (case r' of NaN \<Rightarrow> 0 | Num n \<Rightarrow> n))"
    by (simp add: realSize_def chunkList_def)
  then show ?thesis
    by (simp add: sum_util_chunks split: option.splits)
qed


subsection \<open>The store after the recovery, record by record\<close>

lemma lookup_reducer:
  "map_of (files (stateReducer s a)) i = actOn i (map_of (files s) i) a"
  by (cases a) (auto simp: update_conv' delete_conv' map_of_map_entry split: option.splits)

lemma lookup_foldl:
  "map_of (files (foldl stateReducer s as)) i = foldl (actOn i) (map_of (files s) i) as"
  by (induction as arbitrary: s) (simp_all add: lookup_reducer)

lemma actOn_other: "target a \<noteq> Some i \<Longrightarrow> actOn i r a = r"
  by (cases a) auto

lemma foldl_actOn_filter:
  "foldl (actOn i) r as = foldl (actOn i) r (filter (\<lambda>a. target a = Some i) as)"
  by (induction as arbitrary: r) (simp_all add: actOn_other)

lemma syncActions_append: "syncActions (es @ fs) = syncActions es @ syncActions fs"
  by (induction es rule: syncActions.induct) simp_all

lemma removeCalls_append: "removeCalls (es @ fs) = removeCalls es @ removeCalls fs"
  by (induction es rule: removeCalls.induct) simp_all

lemma syncActions_Dispatch: "syncActions (map (\<lambda>x. Dispatch (f x)) xs) = map f xs"
  by (induction xs) simp_all

lemma removeCalls_Dispatch: "removeCalls (map (\<lambda>x. Dispatch (f x)) xs) = []"
  by (induction xs) simp_all

lemma recover_sync_target:
  "a \<in> set (syncActions (recoverDownload L dp j d)) \<Longrightarrow> target a = Some j"
  by (auto simp: recoverDownload_def split: if_splits option.splits)

lemma recover_calls_target:
  "(p, a) \<in> set (removeCalls (recoverDownload L dp j d)) \<Longrightarrow> a = RemoveDownload j"
  by (auto simp: recoverDownload_def split: if_splits option.splits)

lemma filter_none: "(\<And>x. x \<in> set xs \<Longrightarrow> \<not> P x) \<Longrightarrow> filter P xs = []"
  by (induction xs) auto

lemma filter_all: "(\<And>x. x \<in> set xs \<Longrightarrow> P x) \<Longrightarrow> filter P xs = xs"
  by (induction xs) auto

lemma sync_concat_filter:
  "filter (\<lambda>a. target a = Some i)
     (syncActions (concat (map (\<lambda>(j, d). recoverDownload L dp j d) xs))) =
   syncActions (concat (map (\<lambda>(j, d). recoverDownload L dp j d) (filter (\<lambda>(j, d). j = i) xs)))"
proof (induction xs)
  case Nil
  show ?case by simp
next
  case (Cons x xs)
  obtain j d where x: "x = (j, d)" by (cases x)
  show ?case
  proof (cases "j = i")
    case True
    have "filter (\<lambda>a. target a = Some i) (syncActions (recoverDownload L dp j d)) =
          syncActions (recoverDownload L dp j d)"
      using True by (intro filter_all) (auto dest: recover_sync_target)
    then show ?thesis using Cons.IH True by (simp add: x syncActions_append)
  next
    case False
    have "filter (\<lambda>a. target a = Some i) (syncActions (recoverDownload L dp j d)) = []"
      using False by (intro filter_none) (auto dest: recover_sync_target)
    then show ?thesis using Cons.IH False by (simp add: x syncActions_append)
  qed
qed

lemma settled_concat_filter:
  "filter (\<lambda>a. target a = Some i)
     (settled ok (removeCalls (concat (map (\<lambda>(j, d). recoverDownload L dp j d) xs)))) =
   settled ok (removeCalls (concat (map (\<lambda>(j, d). recoverDownload L dp j d) (filter (\<lambda>(j, d). j = i) xs))))"
proof (induction xs)
  case Nil
  show ?case by (simp add: settled_def)
next
  case (Cons x xs)
  obtain j d where x: "x = (j, d)" by (cases x)
  have app: "\<And>cs ds. settled ok (cs @ ds) = settled ok cs @ settled ok ds"
    by (simp add: settled_def)
  show ?case
  proof (cases "j = i")
    case True
    have "filter (\<lambda>a. target a = Some i) (settled ok (removeCalls (recoverDownload L dp j d))) =
          settled ok (removeCalls (recoverDownload L dp j d))"
      using True by (intro filter_all) (auto simp: settled_def dest: recover_calls_target)
    then show ?thesis using Cons.IH True by (simp add: x removeCalls_append app)
  next
    case False
    have "filter (\<lambda>a. target a = Some i) (settled ok (removeCalls (recoverDownload L dp j d))) = []"
      using False by (intro filter_none) (auto simp: settled_def dest: recover_calls_target)
    then show ?thesis using Cons.IH False by (simp add: x removeCalls_append app)
  qed
qed

lemma second_loop_filter:
  "filter (\<lambda>a. target a = Some i) (map (\<lambda>(j, d). RemoveDownload j) xs) =
   map (\<lambda>(j, d). RemoveDownload j) (filter (\<lambda>(j, d). j = i) xs)"
  by (induction xs) auto

lemma filter_key_distinct:
  "distinct (map fst xs) \<Longrightarrow> (i, d) \<in> set xs \<Longrightarrow> filter (\<lambda>(j, d). j = i) xs = [(i, d)]"
proof (induction xs)
  case Nil
  then show ?case by simp
next
  case (Cons x xs)
  obtain j e where x: "x = (j, e)" by (cases x)
  show ?case
  proof (cases "j = i")
    case True
    from Cons.prems x True have ni: "i \<notin> fst ` set xs" by simp
    with Cons.prems x True have "e = d" by (auto simp: image_iff)
    from ni have "filter (\<lambda>(j, d). j = i) xs = []"
      by (intro filter_none) (auto simp: image_iff)
    with True x \<open>e = d\<close> show ?thesis by simp
  next
    case False
    with Cons x show ?thesis by auto
  qed
qed

lemma filter_key_absent:
  "i \<notin> fst ` set xs \<Longrightarrow> filter (\<lambda>(j, d). j = i) xs = []"
  by (intro filter_none) (auto simp: image_iff)

lemma startupActions_filter:
  "filter (\<lambda>a. target a = Some i) (startupActions L ok dp s) =
   startupActions L ok dp (s\<lparr>files := filter (\<lambda>(j, d). j = i) (files s)\<rparr>)"
proof -
  have comm: "\<And>P. filter (\<lambda>(j, d). j = i) (filter P (files s)) = filter P (filter (\<lambda>(j, d). j = i) (files s))"
    by (auto intro: filter_cong simp: conj_commute)
  have snd: "\<And>xs. map (\<lambda>(j, d). Dispatch (RemoveDownload j)) xs = map (\<lambda>x. Dispatch ((\<lambda>(j, d). RemoveDownload j) x)) xs"
    by (simp add: case_prod_unfold)
  show ?thesis
    unfolding startupActions_def initRecovery_def interruptedDownloads_def Let_def
    apply (simp only: syncActions_append removeCalls_append filter_append snd
          syncActions_Dispatch removeCalls_Dispatch append_Nil2 sync_concat_filter
          settled_concat_filter second_loop_filter comm select_convs update_convs)
    apply simp
    done
qed

lemma startup_lookup_slice:
  "map_of (files (startup L ok dp s)) i =
   foldl (actOn i) (map_of (files s) i)
     (startupActions L ok dp (s\<lparr>files := filter (\<lambda>(j, d). j = i) (files s)\<rparr>))"
  unfolding startup_def lookup_foldl
  by (subst foldl_actOn_filter) (simp only: startupActions_filter)

lemma startup_lookup:
  assumes "distinct (map fst (files s))" and "(i, d) \<in> set (files s)"
  shows "map_of (files (startup L ok dp s)) i = startupRecord L ok dp d"
proof -
  have f: "filter (\<lambda>(j, d). j = i) (files s) = [(i, d)]"
    using assms by (rule filter_key_distinct)
  have m: "map_of (files s) i = Some d"
    using assms by simp
  show ?thesis
    unfolding startup_lookup_slice f m
    by (auto simp: startupActions_def initRecovery_def interruptedDownloads_def recoverDownload_def
          settled_def startupRecord_def truthy_string_def split: option.splits)
qed

lemma startup_lookup_absent:
  assumes "i \<notin> fst ` set (files s)"
  shows "map_of (files (startup L ok dp s)) i = None"
proof -
  have f: "filter (\<lambda>(j, d). j = i) (files s) = []"
    using assms by (rule filter_key_absent)
  have m: "map_of (files s) i = None"
    using assms by (simp add: map_of_eq_None_iff)
  show ?thesis
    unfolding startup_lookup_slice f m
    by (simp add: startupActions_def initRecovery_def interruptedDownloads_def settled_def)
qed



lemmas example_defs =
  exampleStore_def pausedUnresolved_def initUnresolved_def startedResolved_def
  finishedNoPath_def pausedResolved_def startedOvercounted_def exampleLib_def
  joinSegments_def truthy_array_def truthy_string_def interruptedStates_def removalSucceeds_def

lemmas path_defs =
  knownArchiveExt_def archiveExtLookup_def dotSuffix_def lastSegment_def lowerAscii_def

lemmas startup_defs =
  startup_def startupActions_def initRecovery_def interruptedDownloads_def
  recoverDownload_def settled_def removedPaths_def realSize_def sum_util_def

subsection \<open>Claims about the recovery at startup\<close>




text \<open>
  C2, as the code has it. For a record whose \<open>urls\<close> are resolved the recovery dispatches
  the interrupted transition with \<open>realSize\<close>: the total size minus the sum of the chunk
  sizes when the total size is a number other than \<open>0\<close> and every chunk size is a number,
  and \<open>0\<close> when the total size is \<open>0\<close> or undefined (or a chunk size is undefined). The
  value is not clamped: it is negative exactly when the chunk sizes add up to more than the
  total size.
\<close>

theorem remaining_bytes:
  "truthy_array (urls d) \<Longrightarrow>
     recoverDownload L dp i d = [Dispatch (SetDownloadInterrupted i (realSize d))] \<and>
     (size_dl d = None \<or> size_dl d = Some 0 \<longrightarrow> realSize d = 0) \<and>
     (\<forall>t. size_dl d = Some t \<and> t \<noteq> 0 \<and> chunksNumeric d \<longrightarrow> realSize d = t - chunkTotal d) \<and>
     (\<not> chunksNumeric d \<longrightarrow> realSize d = 0) \<and>
     (realSize d < 0 \<longleftrightarrow>
        (\<exists>t. size_dl d = Some t \<and> chunksNumeric d \<and> t < chunkTotal d \<and> t \<noteq> 0))"
  by (auto simp: recoverDownload_def realSize_eq split: option.splits)

theorem remaining_bytes_witness:
  "recoverDownload exampleLib (Some ''/downloads'') ''dl3'' startedResolved =
     [Dispatch (SetDownloadInterrupted ''dl3'' 500)]
   \<and> realSize startedResolved = 1000 - chunkTotal startedResolved
   \<and> chunkTotal startedResolved = 500"
proof -
  have h: "truthy_array (urls startedResolved)" by (simp add: example_defs)
  have n: "chunksNumeric startedResolved" "size_dl startedResolved = Some 1000"
    "chunkTotal startedResolved = 500"
    by (simp_all add: example_defs chunksNumeric_def chunkTotal_def chunkList_def)
  show ?thesis
    using remaining_bytes [OF h, of exampleLib "Some ''/downloads''" "''dl3''"] n
    by simp
qed

text \<open>
  C2 as stated fails: with a total size of 100 and one chunk of size 150 the value passed
  to the interrupted transition is \<open>-50\<close>.
\<close>

theorem remaining_bytes_counterexample:
  "recoverDownload exampleLib (Some ''/downloads'') ''dl6'' startedOvercounted =
     [Dispatch (SetDownloadInterrupted ''dl6'' (- 50))]
   \<and> realSize startedOvercounted < 0"
  by (simp add: example_defs startup_defs)

text \<open>
  C3, as the code has it. For a record in state \<open>init\<close>, \<open>started\<close> or \<open>pending\<close> whose
  \<open>urls\<close> are resolved the recovery dispatches the interrupted transition; after the
  recovery the record is in state \<open>interrupted\<close>, unless its \<open>localPath\<close> is undefined or
  empty, in which case it is removed. It does not stay in its previous state.
\<close>

theorem resolved_interrupted:
  assumes "distinct (map fst (files s))" and "(i, d) \<in> set (files s)"
    and "state d \<in> set interruptedStates" and "truthy_array (urls d)"
  shows "Dispatch (SetDownloadInterrupted i (realSize d)) \<in> set (initRecovery L dp (files s))
         \<and> map_of (files (startup L rm_ok dp s)) i =
             (if truthy_string (localPath d)
              then Some (d\<lparr>state := ''interrupted'', received := Some (realSize d)\<rparr>)
              else None)
         \<and> (\<forall>d'. map_of (files (startup L rm_ok dp s)) i = Some d' \<longrightarrow> state d' = ''interrupted'')"
proof -
  have look: "map_of (files (startup L rm_ok dp s)) i = startupRecord L rm_ok dp d"
    using assms(1,2) by (rule startup_lookup)
  have "(i, d) \<in> set (interruptedDownloads (files s))"
    using assms(2,3) by (simp add: interruptedDownloads_def)
  moreover have "Dispatch (SetDownloadInterrupted i (realSize d)) \<in> set (recoverDownload L dp i d)"
    using assms(4) by (simp add: recoverDownload_def)
  ultimately have disp: "Dispatch (SetDownloadInterrupted i (realSize d)) \<in> set (initRecovery L dp (files s))"
    unfolding initRecovery_def by force
  show ?thesis
    using assms(3,4) disp unfolding look
    by (auto simp: startupRecord_def)
qed

theorem resolved_interrupted_witness:
  "Dispatch (SetDownloadInterrupted ''dl3'' 500)
     \<in> set (initRecovery exampleLib (Some ''/downloads'') (files exampleStore))
   \<and> map_of (files (startup exampleLib removalSucceeds (Some ''/downloads'') exampleStore)) ''dl3''
       = Some (startedResolved\<lparr>state := ''interrupted'', received := Some 500\<rparr>)"
proof -
  have h1: "distinct (map fst (files exampleStore))" by (simp add: example_defs)
  have h2: "(''dl3'', startedResolved) \<in> set (files exampleStore)" by (simp add: example_defs)
  have h3: "state startedResolved \<in> set interruptedStates" by (simp add: example_defs)
  have h4: "truthy_array (urls startedResolved)" by (simp add: example_defs)
  have r: "realSize startedResolved = 500" "truthy_string (localPath startedResolved)"
    by (simp_all add: example_defs startup_defs)
  show ?thesis
    using resolved_interrupted [OF h1 h2 h3 h4, of exampleLib "Some ''/downloads''" removalSucceeds]
    by (simp add: r)
qed

text \<open>
  C3 as stated fails: a \<open>paused\<close> record with resolved \<open>urls\<close> is not in a terminal
  state, and the recovery dispatches nothing for it and leaves it \<open>paused\<close>.
\<close>

theorem resolved_interrupted_counterexample:
  "state pausedResolved = ''paused'' \<and> urls pausedResolved = Some [''http://host/e.zip'']
   \<and> map_of (files exampleStore) ''dl5'' = Some pausedResolved
   \<and> startupActions exampleLib removalSucceeds (Some ''/downloads'') exampleStore =
       [SetDownloadInterrupted ''dl3'' 500, SetDownloadInterrupted ''dl6'' (- 50),
        RemoveDownload ''dl4'', RemoveDownload ''dl2'']
   \<and> map_of (files (startup exampleLib removalSucceeds (Some ''/downloads'') exampleStore)) ''dl5''
       = Some pausedResolved"
  by (simp add: example_defs startup_defs)

text \<open>
  C7 fails on the code at a never-started record whose \<open>localPath\<close> is the empty string.
  The guard of line 536 compares with \<^verbatim>\<open>undefined\<close>, where the loop of line 557
  tests \<^verbatim>\<open>truthy\<close>: the record passes the guard, and the removal requested for it is
  that of the download path joined with the empty string, the download directory itself,
  in which the file of the paused download \<open>dl5\<close> lies. It is also one of the records
  that the second loop removes for having no \<open>localPath\<close>.
\<close>

theorem empty_localPath_removes_directory:
  "neverStarted initEmptyPath \<and> localPath initEmptyPath = Some []
   \<and> truthy_string (localPath initEmptyPath) = False
   \<and> initRecovery exampleLib (Some ''/downloads'') (files emptyPathStore) =
       [LogInfo ''download removed because urls were never retrieved'' ''dl7'',
        RemoveAsync ''/downloads'' (RemoveDownload ''dl7''),
        Dispatch (RemoveDownload ''dl7'')]
   \<and> removedPaths removalSucceeds
        (initRecovery exampleLib (Some ''/downloads'') (files emptyPathStore)) = [''/downloads'']
   \<and> map_of (files emptyPathStore) ''dl5'' = Some pausedResolved
   \<and> localPath pausedResolved = Some ''e.zip''
   \<and> join exampleLib ''/downloads'' ''e.zip'' = ''/downloads/e.zip''"
  by (simp add: initEmptyPath_def emptyPathStore_def neverStarted_def initRecovery_def
        interruptedDownloads_def recoverDownload_def removedPaths_def example_defs)

subsection \<open>The records that the clean-up and the change handler remove\<close>

lemma foldl_actOn_remove:
  "foldl (actOn i) r (map RemoveDownload js) = (if i \<in> set js then None else r)"
proof (induction js arbitrary: r)
  case Nil
  show ?case by simp
next
  case (Cons j js)
  have none: "\<And>ks. foldl (actOn i) None (map RemoveDownload ks) = None"
    by (induct_tac ks) simp_all
  show ?case using Cons.IH by (simp add: none)
qed

lemma key_of_filter:
  assumes "distinct (map fst xs)" and "(i, d) \<in> set xs"
  shows "i \<in> fst ` set (filter P xs) \<longleftrightarrow> P (i, d)"
proof
  assume "i \<in> fst ` set (filter P xs)"
  then obtain e where e: "(i, e) \<in> set xs" "P (i, e)" by auto
  with assms have "e = d" by (meson eq_key_imp_eq_value)
  with e show "P (i, d)" by simp
next
  assume "P (i, d)"
  with assms(2) show "i \<in> fst ` set (filter P xs)" by force
qed

lemma cleanup_lookup:
  assumes "distinct (map fst (files s))" and "(i, d) \<in> set (files s)"
  shows "map_of (files (removeFinishedWithoutPath s)) i =
           (if state d = ''finished'' \<and> \<not> truthy_string (localPath d) then None else Some d)"
proof -
  have m: "map_of (files s) i = Some d" using assms by simp
  have e: "\<And>xs. map (\<lambda>(dlId, d). RemoveDownload dlId) xs = map RemoveDownload (map fst xs)"
    by (simp add: case_prod_unfold)
  show ?thesis
    unfolding removeFinishedWithoutPath_def lookup_foldl e foldl_actOn_remove m
    using key_of_filter [OF assms, of "\<lambda>(dlId, d). state d = ''finished'' \<and> \<not> truthy_string (localPath d)"]
    by simp
qed

lemma handler_lookup:
  assumes "map_of (files (store w)) i = Some d"
  shows "map_of (files (store (downloadChangeHandler L g nf st newId evt fileName w))) i = None \<longleftrightarrow>
           (watchEnabled w \<and> knownArchiveExt L fileName \<and> evt = ''rename'' \<and> st = StatError ''ENOENT'' \<and>
            (\<exists>fn. fileName = Some fn \<and> map_of (nameIdMap w) (nf fn) = Some i))"
proof (cases "\<not> watchEnabled w \<or> fileName = None \<or> \<not> knownArchiveExt L fileName")
  case True
  then show ?thesis using assms by (auto simp: downloadChangeHandler_def)
next
  case False
  then obtain fn where fn: "fileName = Some fn" by auto
  show ?thesis
  proof (cases "evt = ''rename''")
    case r: True
    show ?thesis
      using assms False fn r
      by (cases st; cases "findDownload (store w) fn"; cases "map_of (nameIdMap w) (nf fn)")
         (auto simp: downloadChangeHandler_def dispatch_def update_conv' delete_conv')
  next
    case nr: False
    show ?thesis
      using assms False fn nr
      by (auto simp: downloadChangeHandler_def split: option.splits)
  qed
qed

lemma startupRecord_None:
  "startupRecord L rm_ok dp d = None \<longleftrightarrow> startupRemoves L rm_ok dp d"
  by (auto simp: startupRecord_def startupRemoves_def truthy_string_def split: option.splits)

subsection \<open>A failed import\<close>

lemma foldl_remove_files:
  "foldl stateReducer s (map RemoveDownload js) = s\<lparr>files := filter (\<lambda>(k, d). k \<notin> set js) (files s)\<rparr>"
proof (induction js arbitrary: s)
  case Nil
  show ?case by simp
next
  case (Cons j js)
  have "filter (\<lambda>(k, d). k \<notin> set js) (AList.delete j (files s)) =
        filter (\<lambda>(k, d). k \<notin> set (j # js)) (files s)"
    by (induction "files s" arbitrary: s) (auto simp: AList.delete_eq case_prod_unfold intro: filter_cong)
  then show ?case
    unfolding list.map foldl_Cons Cons.IH by simp
qed

lemma remove_matching_files:
  assumes "distinct (map fst (files s))"
  shows "foldl stateReducer s (map (\<lambda>(dlId, d). RemoveDownload dlId) (filter P (files s))) =
         s\<lparr>files := filter (\<lambda>e. \<not> P e) (files s)\<rparr>"
proof -
  have e: "\<And>xs. map (\<lambda>(dlId, d). RemoveDownload dlId) xs = map RemoveDownload (map fst xs)"
    by (simp add: case_prod_unfold)
  have "filter (\<lambda>(k, d). k \<notin> set (map fst (filter P (files s)))) (files s) = filter (\<lambda>e. \<not> P e) (files s)"
  proof (rule filter_cong [OF refl])
    fix x assume x: "x \<in> set (files s)"
    obtain k d where kd: "x = (k, d)" by (cases x)
    from key_of_filter [OF assms, of k d P] x kd
    show "(case x of (k, d) \<Rightarrow> k \<notin> set (map fst (filter P (files s)))) = (\<not> P x)"
      by simp
  qed
  then show ?thesis unfolding e foldl_remove_files by simp
qed

lemma add_then_remove:
  "dlId \<notin> fst ` set (files s) \<Longrightarrow>
     dispatch (RemoveDownload dlId) (dispatch (AddLocalDownload dlId g f n) s) = s"
  by (simp add: dispatch_def delete_update_same)

lemma remove_absent:
  "dlId \<notin> fst ` set (files s) \<Longrightarrow> dispatch (RemoveDownload dlId) s = s"
  by (simp add: dispatch_def)
lemma move_cases:
  "move L out gameMode dlId source destination s =
     (let fileName = basename L destination;
          s1 = (if replaced out
                then foldl stateReducer s (map (\<lambda>(dlId, d). RemoveDownload dlId)
                       (filter (\<lambda>(dlId, d). localPath d = Some fileName) (files s)))
                else s);
          s2 = dispatch (AddLocalDownload dlId gameMode fileName 0) s1
      in if (case destinationStat out of Stats _ _ \<Rightarrow> \<not> replaced out | StatError _ \<Rightarrow> False)
         then moveFailed dlId s
         else if \<not> copyOk out then moveFailed dlId s2
         else (case copiedStat out of
                 StatError _ \<Rightarrow> moveFailed dlId s2
               | Stats sz _ \<Rightarrow>
                   \<lparr>resultStore = dispatch (DownloadProgress dlId sz sz) s2,
                    announced = [dlId], failed = False\<rparr>))"
  by (cases "destinationStat out")
     (simp_all add: move_def queryReplace_def removeArchive_def replaced_def Let_def)

text \<open>
  C8, as the code has it. When \<open>move\<close> fails, the record it added under the new id is
  removed again (nothing was added when the failure came first), and nothing is announced.
  The store is the one before the import, except that when the existing archive at the
  destination was replaced, the records whose \<open>localPath\<close> is the destination's file name
  are gone.
\<close>

theorem failed_import:
  assumes "distinct (map fst (files s))" and "dlId \<notin> fst ` set (files s)"
    and "failed (move L out gameMode dlId source destination s)"
  shows "resultStore (move L out gameMode dlId source destination s) =
           (if replaced out
            then s\<lparr>files := filter (\<lambda>(i, d). localPath d \<noteq> Some (basename L destination)) (files s)\<rparr>
            else s)
         \<and> dlId \<notin> fst ` set (files (resultStore (move L out gameMode dlId source destination s)))
         \<and> announced (move L out gameMode dlId source destination s) = []"
proof -
  let ?P = "\<lambda>(i, d). localPath d = Some (basename L destination)"
  let ?t = "s\<lparr>files := filter (\<lambda>(i, d). localPath d \<noteq> Some (basename L destination)) (files s)\<rparr>"
  let ?s1 = "if replaced out then ?t else s"
  have eq: "(\<lambda>e. \<not> ?P e) = (\<lambda>(i, d). localPath d \<noteq> Some (basename L destination))"
    by auto
  have rm: "foldl stateReducer s (map (\<lambda>(dlId, d). RemoveDownload dlId) (filter ?P (files s))) = ?t"
    using remove_matching_files [OF assms(1), of ?P] unfolding eq .
  have fresh1: "dlId \<notin> fst ` set (files ?s1)" using assms(2) by auto
  have undone: "\<And>g f n. dispatch (RemoveDownload dlId) (dispatch (AddLocalDownload dlId g f n) ?s1) = ?s1"
    using fresh1 by (rule add_then_remove)
  have same: "dispatch (RemoveDownload dlId) s = s"
    using assms(2) by (rule remove_absent)
  have m: "move L out gameMode dlId source destination s =
     (let s2 = dispatch (AddLocalDownload dlId gameMode (basename L destination) 0) ?s1
      in if (case destinationStat out of Stats _ _ \<Rightarrow> \<not> replaced out | StatError _ \<Rightarrow> False)
         then moveFailed dlId s
         else if \<not> copyOk out then moveFailed dlId s2
         else (case copiedStat out of
                 StatError _ \<Rightarrow> moveFailed dlId s2
               | Stats sz _ \<Rightarrow>
                   \<lparr>resultStore = dispatch (DownloadProgress dlId sz sz) s2,
                    announced = [dlId], failed = False\<rparr>))"
    unfolding move_cases Let_def rm by (simp cong: if_cong)
  have res: "resultStore (move L out gameMode dlId source destination s) = ?s1
             \<and> announced (move L out gameMode dlId source destination s) = []"
  proof (cases "case destinationStat out of Stats _ _ \<Rightarrow> \<not> replaced out | StatError _ \<Rightarrow> False")
    case True
    then have "\<not> replaced out" by (auto simp: replaced_def split: stat_result.splits)
    with True show ?thesis unfolding m Let_def by (simp add: moveFailed_def same)
  next
    case False
    show ?thesis
    proof (cases "copyOk out")
      case c: False
      with False show ?thesis unfolding m Let_def by (simp add: moveFailed_def undone)
    next
      case c: True
      show ?thesis
      proof (cases "copiedStat out")
        case (Stats sz dir)
        with False c assms(3) show ?thesis unfolding m Let_def by simp
      next
        case (StatError e)
        with False c show ?thesis unfolding m Let_def by (simp add: moveFailed_def undone)
      qed
    qed
  qed
  show ?thesis using res fresh1 by simp
qed

theorem failed_import_witness:
  "resultStore (move exampleLib copyFails (Some ''skyrim'') ''new1'' ''/tmp/g.zip''
                  ''/downloads/g.zip'' exampleStore) = exampleStore
   \<and> resultStore (move exampleLib replaceThenCopyFails (Some ''skyrim'') ''new1'' ''/tmp/c.zip''
                  ''/downloads/c.zip'' exampleStore) =
       exampleStore\<lparr>files := filter (\<lambda>(i, d). localPath d \<noteq> Some ''c.zip'') (files exampleStore)\<rparr>"
proof -
  have h1: "distinct (map fst (files exampleStore))" by (simp add: example_defs)
  have h2: "''new1'' \<notin> fst ` set (files exampleStore)" by (simp add: example_defs)
  have f1: "failed (move exampleLib copyFails (Some ''skyrim'') ''new1'' ''/tmp/g.zip''
                  ''/downloads/g.zip'' exampleStore)"
    by (simp add: move_def copyFails_def moveFailed_def)
  have f2: "failed (move exampleLib replaceThenCopyFails (Some ''skyrim'') ''new1'' ''/tmp/c.zip''
                  ''/downloads/c.zip'' exampleStore)"
    by (simp add: move_def replaceThenCopyFails_def moveFailed_def queryReplace_def removeArchive_def)
  have r: "\<not> replaced copyFails" "replaced replaceThenCopyFails"
    "basename exampleLib ''/downloads/c.zip'' = ''c.zip''"
    by (simp_all add: replaced_def copyFails_def replaceThenCopyFails_def exampleLib_def lastSegment_def)
  show ?thesis
    using failed_import [OF h1 h2 f1] failed_import [OF h1 h2 f2]
    by (simp add: r)
qed

text \<open>
  C8 as stated fails: the import onto the existing \<open>c.zip\<close> is confirmed, the old archive
  and its record \<open>dl3\<close> are removed, and then the copy fails; the failed import has
  changed the download set.
\<close>

theorem failed_import_counterexample:
  "failed (move exampleLib replaceThenCopyFails (Some ''skyrim'') ''new1'' ''/tmp/c.zip''
             ''/downloads/c.zip'' exampleStore)
   \<and> map_of (files exampleStore) ''dl3'' = Some startedResolved
   \<and> map_of (files (resultStore (move exampleLib replaceThenCopyFails (Some ''skyrim'') ''new1''
        ''/tmp/c.zip'' ''/downloads/c.zip'' exampleStore))) ''dl3'' = None"
  by (simp add: move_def replaceThenCopyFails_def moveFailed_def queryReplace_def removeArchive_def
        dispatch_def lastSegment_def example_defs)

subsection \<open>Which operation removes which record\<close>

lemma remove_matching_lookup:
  assumes "distinct (map fst (files s))" and "(i, d) \<in> set (files s)"
  shows "map_of (files (foldl stateReducer s
            (map (\<lambda>(dlId, d). RemoveDownload dlId) (filter P (files s))))) i =
           (if P (i, d) then None else Some d)"
proof -
  have m: "map_of (files s) i = Some d" using assms by simp
  have e: "\<And>xs. map (\<lambda>(dlId, d). RemoveDownload dlId) xs = map RemoveDownload (map fst xs)"
    by (simp add: case_prod_unfold)
  show ?thesis
    unfolding lookup_foldl e foldl_actOn_remove m
    using key_of_filter [OF assms, of P] by simp
qed

lemma onAdd_lookup:
  "\<forall>f \<in> set fs. newIdFor E f \<noteq> i \<Longrightarrow>
     map_of (files (fst (snd (promiseMap (onAddDownload L E cdp g nf) fs sm)))) i =
     map_of (files (fst sm)) i"
proof (induction fs arbitrary: sm)
  case Nil
  show ?case by simp
next
  case (Cons f fs)
  show ?case
  proof (cases "onAddDownload L E cdp g nf f sm")
    case (Inl e)
    with Cons show ?thesis by simp
  next
    case (Inr sm')
    then have "map_of (files (fst sm')) i = map_of (files (fst sm)) i"
      using Cons.prems
      by (auto simp: onAddDownload_def dispatch_def update_conv' split: stat_result.splits)
    with Inr Cons show ?thesis by simp
  qed
qed

lemma onAdd_names:
  "k \<notin> nf ` set fs \<Longrightarrow>
     map_of (snd (snd (promiseMap (onAddDownload L E cdp g nf) fs sm))) k = map_of (snd sm) k"
proof (induction fs arbitrary: sm)
  case Nil
  show ?case by simp
next
  case (Cons f fs)
  show ?case
  proof (cases "onAddDownload L E cdp g nf f sm")
    case (Inl e)
    with Cons show ?thesis by simp
  next
    case (Inr sm')
    then have "map_of (snd sm') k = map_of (snd sm) k"
      using Cons.prems
      by (auto simp: onAddDownload_def update_conv' split: stat_result.splits)
    with Inr Cons show ?thesis by simp
  qed
qed

lemma onAdd_error:
  "fst (promiseMap (onAddDownload L E cdp g nf) fs sm) = None \<longleftrightarrow>
     list_all (\<lambda>f. case addStat E (join L cdp f) of Stats _ _ \<Rightarrow> True | StatError _ \<Rightarrow> False) fs"
proof (induction fs arbitrary: sm)
  case Nil
  show ?case by simp
next
  case (Cons f fs)
  show ?case
  proof (cases "addStat E (join L cdp f)")
    case (Stats sz dir)
    then show ?thesis using Cons.IH by (simp add: onAddDownload_def)
  next
    case (StatError e)
    then show ?thesis by (simp add: onAddDownload_def)
  qed
qed

lemma remove_lookup:
  "map_of (files (dispatch (RemoveDownload j) s)) i = (if j = i then None else map_of (files s) i)"
  by (simp add: dispatch_def delete_conv')

lemma onRemove_result:
  "fst (promiseMap onRemoveDownload ns sm) = None \<and>
   snd (snd (promiseMap onRemoveDownload ns sm)) = snd sm \<and>
   map_of (files (fst (snd (promiseMap onRemoveDownload ns sm)))) i =
     (if list_ex (\<lambda>n. map_of (snd sm) n = Some i) ns then None else map_of (files (fst sm)) i)"
proof (induction ns arbitrary: sm)
  case Nil
  show ?case by simp
next
  case (Cons n ns)
  show ?case
  proof (cases "map_of (snd sm) n")
    case None
    then have "onRemoveDownload n sm = Inr sm" by (simp add: onRemoveDownload_def)
    with None Cons.IH [of sm] show ?thesis by simp
  next
    case (Some j)
    let ?sm' = "(dispatch (RemoveDownload j) (fst sm), snd sm)"
    from Some have r: "onRemoveDownload n sm = Inr ?sm'" by (simp add: onRemoveDownload_def)
    show ?thesis
      using Some Cons.IH [of ?sm'] by (auto simp: r remove_lookup)
  qed
qed

lemma addedDLs_subset: "set (addedDLs knownDLs nf archives) \<subseteq> set archives"
  unfolding addedDLs_def by (auto dest: set_zip_leftD)

lemma removedDLs_unlisted:
  "n \<in> set (removedDLs knownDLs nf archives) \<Longrightarrow> n \<notin> nf ` set archives"
  by (auto simp: removedDLs_def)

lemma update_lookup:
  assumes "distinct (map fst (files (store w)))" and "(i, d) \<in> set (files (store w))"
    and fresh: "\<forall>f. newIdFor E f \<notin> fst ` set (files (store w))"
  shows "map_of (files (store (updateDownloadPath L E gameIdArg w))) i = None \<longleftrightarrow>
           (state d = ''finished'' \<and> \<not> truthy_string (localPath d)) \<or>
           scanRemoves L E gameIdArg (files (store w)) i"
proof -
  let ?s1 = "removeFinishedWithoutPath (store w)"
  let ?C = "state d = ''finished'' \<and> \<not> truthy_string (localPath d)"
  have l1: "map_of (files ?s1) i = (if ?C then None else Some d)"
    using assms(1,2) by (rule cleanup_lookup)
  have ni: "\<And>f. newIdFor E f \<noteq> i"
    using fresh assms(2) by (metis fst_conv image_eqI)
  show ?thesis
  proof (cases "case gameIdArg of None \<Rightarrow> activeGame E | Some g \<Rightarrow> Some g")
    case None
    then show ?thesis by (simp add: updateDownloadPath_def scanRemoves_def Let_def l1)
  next
    case (Some gameId)
    show ?thesis
    proof (cases "normalizeOutcome E")
      case (Inl err)
      with Some show ?thesis by (simp add: updateDownloadPath_def scanRemoves_def Let_def l1)
    next
      case (Inr nf)
      let ?cdp = "pathForGame E gameId"
      let ?m = "buildNameIdMap nf (files (store w))"
      let ?known = "knownDownloads E gameId nf (files (store w))"
      let ?sm = "snd (refreshDownloads L (writableOutcome E) (readdirOutcome E) (scanStat E) ?cdp
                   ?known nf (onAddDownload L E ?cdp gameId nf) onRemoveDownload (?s1, ?m))"
      have st: "store (updateDownloadPath L E gameIdArg w) = fst ?sm"
        using Some Inr by (simp add: updateDownloadPath_def Let_def)
      show ?thesis
      proof (cases "writableOutcome E")
        case (Some err)
        then show ?thesis
          using \<open>(case gameIdArg of None \<Rightarrow> activeGame E | Some g \<Rightarrow> Some g) = Some gameId\<close> Inr
          unfolding st by (simp add: refreshDownloads_def scanRemoves_def l1)
      next
        case None
        note wr = None
        show ?thesis
        proof (cases "readdirOutcome E")
          case (Inl err)
          then show ?thesis
            using \<open>(case gameIdArg of None \<Rightarrow> activeGame E | Some g \<Rightarrow> Some g) = Some gameId\<close> Inr wr
            unfolding st by (simp add: refreshDownloads_def scanRemoves_def l1)
        next
          case (Inr entries)
          let ?arch = "downloadNames L (scanStat E) ?cdp entries"
          let ?adds = "addedDLs ?known nf ?arch"
          let ?rems = "removedDLs ?known nf ?arch"
          let ?pa = "promiseMap (onAddDownload L E ?cdp gameId nf) ?adds (?s1, ?m)"
          let ?ok = "list_all (\<lambda>f. case addStat E (join L ?cdp f) of Stats _ _ \<Rightarrow> True | StatError _ \<Rightarrow> False) ?adds"
          have la: "map_of (files (fst (snd ?pa))) i = (if ?C then None else Some d)"
            using onAdd_lookup [of ?adds E i L ?cdp gameId nf "(?s1, ?m)"] ni l1 by simp
          have ma: "\<And>n. n \<in> set ?rems \<Longrightarrow> map_of (snd (snd ?pa)) n = map_of ?m n"
          proof -
            fix n assume "n \<in> set ?rems"
            then have "n \<notin> nf ` set ?arch" by (rule removedDLs_unlisted)
            with addedDLs_subset [of ?known nf ?arch] have "n \<notin> nf ` set ?adds" by blast
            from onAdd_names [OF this, of L E ?cdp gameId "(?s1, ?m)"] show "map_of (snd (snd ?pa)) n = map_of ?m n"
              by simp
          qed
          have ex: "list_ex (\<lambda>n. map_of (snd (snd ?pa)) n = Some i) ?rems \<longleftrightarrow>
                    list_ex (\<lambda>n. map_of ?m n = Some i) ?rems"
            using ma by (auto simp: list_ex_iff)
          have er: "fst ?pa = None \<longleftrightarrow> ?ok" by (rule onAdd_error)
          have sc: "scanRemoves L E gameIdArg (files (store w)) i \<longleftrightarrow>
                    ?ok \<and> list_ex (\<lambda>n. map_of ?m n = Some i) ?rems"
            using \<open>(case gameIdArg of None \<Rightarrow> activeGame E | Some g \<Rightarrow> Some g) = Some gameId\<close>
                  \<open>normalizeOutcome E = Inr nf\<close> wr Inr
            by (simp add: scanRemoves_def Let_def)
          have rf: "?sm = (if fst ?pa = None then snd (promiseMap onRemoveDownload ?rems (snd ?pa)) else snd ?pa)"
            using wr Inr
            by (cases ?pa; cases "fst ?pa") (simp_all add: refreshDownloads_def Let_def)
          show ?thesis
          proof (cases ?ok)
            case True
            with er rf have "?sm = snd (promiseMap onRemoveDownload ?rems (snd ?pa))" by simp
            then have "map_of (files (fst ?sm)) i =
                (if list_ex (\<lambda>n. map_of (snd (snd ?pa)) n = Some i) ?rems then None
                 else map_of (files (fst (snd ?pa))) i)"
              using onRemove_result [of ?rems "snd ?pa" i] by simp
            then have "map_of (files (fst ?sm)) i =
                (if list_ex (\<lambda>n. map_of ?m n = Some i) ?rems then None
                 else if ?C then None else Some d)"
              unfolding ex la .
            then show ?thesis unfolding st sc using True by auto
          next
            case False
            with er have "fst ?pa \<noteq> None" by blast
            with rf have "?sm = snd ?pa" by (simp del: not_None_eq)
            with la have "map_of (files (fst ?sm)) i = (if ?C then None else Some d)" by simp
            then show ?thesis unfolding st sc using False by auto
          qed
        qed
      qed
    qed
  qed
qed

lemma move_lookup:
  assumes "distinct (map fst (files s))" and "(i, d) \<in> set (files s)" and "dlId \<noteq> i"
  shows "map_of (files (resultStore (move L out gameMode dlId source destination s))) i = None \<longleftrightarrow>
           replaced out \<and> localPath d = Some (basename L destination)"
proof -
  let ?P = "\<lambda>(dlId, d). localPath d = Some (basename L destination)"
  let ?s1 = "if replaced out
             then foldl stateReducer s (map (\<lambda>(dlId, d). RemoveDownload dlId) (filter ?P (files s)))
             else s"
  have m: "map_of (files s) i = Some d" using assms(1,2) by simp
  have l1: "map_of (files ?s1) i =
              (if replaced out \<and> localPath d = Some (basename L destination) then None else Some d)"
    using remove_matching_lookup [OF assms(1,2), of ?P] m by simp
  have other: "\<And>a t. target a = Some dlId \<Longrightarrow>
                 map_of (files (dispatch a t)) i = map_of (files t) i"
    using assms(3) unfolding dispatch_def lookup_reducer by (simp add: actOn_other)
  have nr: "(case destinationStat out of Stats _ _ \<Rightarrow> \<not> replaced out | StatError _ \<Rightarrow> False) \<Longrightarrow>
              \<not> replaced out"
    by (auto split: stat_result.splits)
  have "map_of (files (resultStore (move L out gameMode dlId source destination s))) i =
          map_of (files ?s1) i"
    unfolding move_cases Let_def
    using nr by (auto simp: moveFailed_def other split: stat_result.splits)
  then show ?thesis unfolding l1 by simp
qed

lemma timeout_lookup:
  "map_of (files (store (updateTimeout st fn w))) i = None \<longleftrightarrow> map_of (files (store w)) i = None"
  by (auto simp: updateTimeout_def dispatch_def map_of_map_entry split: stat_result.splits option.splits)

lemma speed_files: "files (fst (speedCallback v s)) = files s"
  by (simp add: speedCallback_def dispatch_def)

text \<open>
  C4, as the code has it. Let the ids that \<^verbatim>\<open>shortid\<close> generates be new. An
  operation of index.ts removes a record of the store exactly in these cases. The
  recovery at startup removes the records without a \<open>localPath\<close> and the never-started
  records whose path is unknown or whose file removal succeeded. updateDownloadPath
  removes the \<open>finished\<close> records without a \<open>localPath\<close> and, when its scan of the
  directory gets as far as its removals, the records that \<open>nameIdMap\<close> holds for the
  known downloads of the game whose normalized name is that of no archive file of the
  directory. The change handler removes, with the watch enabled, the record that
  \<open>nameIdMap\<close> holds for the name of a file with a known archive extension, on a
  \<open>rename\<close> whose stat fails with \<open>ENOENT\<close>. An import that replaces the archive at
  its destination removes the records with the file name of the destination. No other
  operation removes a record: not the other events and the timeouts of the handler, not
  an import otherwise (a failed one removes only the record it added itself), not a
  delivered speed, not the report of the speed history, not the mod info found for a
  record, not a calculated file hash.
\<close>

theorem records_removed_only_by:
  assumes "distinct (map fst (files (store w)))" and "(i, d) \<in> set (files (store w))"
    and "idsFresh w op"
  shows "map_of (files (store (perform L w op))) i = None \<longleftrightarrow> removes L w op i d"
proof -
  have m: "map_of (files (store w)) i = Some d" using assms(1,2) by simp
  show ?thesis
  proof (cases op)
    case (Startup rm_ok dp)
    then show ?thesis
      using startup_lookup [OF assms(1,2), of L rm_ok dp] by (simp add: startupRecord_None)
  next
    case (UpdateDownloadPath E gameIdArg)
    with assms(3) have "\<forall>f. newIdFor E f \<notin> fst ` set (files (store w))" by simp
    from update_lookup [OF assms(1,2) this] UpdateDownloadPath show ?thesis by simp
  next
    case (HandlerEvent gameId nf e)
    show ?thesis
    proof (cases e)
      case (FsEvent evt fileName st newId)
      have "(\<exists>fn. fileName = Some fn \<and> map_of (nameIdMap w) (nf fn) = Some i) \<longleftrightarrow>
            (case fileName of None \<Rightarrow> False | Some fn \<Rightarrow> map_of (nameIdMap w) (nf fn) = Some i)"
        by (cases fileName) simp_all
      with handler_lookup [OF m, of L gameId nf st newId evt fileName] HandlerEvent FsEvent
      show ?thesis by simp
    next
      case (TimeoutFires st)
      with HandlerEvent m show ?thesis
        by (cases "timeouts w") (simp_all add: timeout_lookup)
    next
      case (EnableDownloadWatch b)
      with HandlerEvent m show ?thesis by simp
    qed
  next
    case (Import out gameMode dlId source destination)
    with assms(2,3) have "dlId \<noteq> i" by (auto simp: image_iff)
    from move_lookup [OF assms(1,2) this] Import show ?thesis by simp
  next
    case (SpeedDelivered v)
    with m show ?thesis by (simp add: speed_files)
  next
    case SpeedsReported
    with m show ?thesis by (simp add: dispatch_def)
  next
    case (ModInfoFound dlId gameId fileVersion name)
    with m show ?thesis by (cases name) (simp_all add: dispatch_def Let_def)
  next
    case (FileHashCalculated filePath fileMD5 fileSize)
    with m show ?thesis by (simp add: dispatch_def)
  qed
qed

theorem records_removed_only_by_witness:
  "map_of (files (store (perform exampleLib exampleWatcher
      (Startup removalSucceeds (Some ''/downloads''))))) ''dl4'' = None
   \<and> map_of (files (store (perform exampleLib exampleWatcher
      (UpdateDownloadPath examplePathEnv None)))) ''dl3'' = None
   \<and> map_of (files (store (perform exampleLib exampleWatcher
      (HandlerEvent ''skyrim'' lowerAscii
         (FsEvent ''rename'' (Some ''c.zip'') (StatError ''ENOENT'') ''new1''))))) ''dl3'' = None
   \<and> map_of (files (store (perform exampleLib exampleWatcher (SpeedDelivered 5)))) ''dl3'' \<noteq> None"
proof -
  have h1: "distinct (map fst (files (store exampleWatcher)))"
    by (simp add: exampleWatcher_def genDownloadChangeHandler_def example_defs)
  have h4: "(''dl4'', finishedNoPath) \<in> set (files (store exampleWatcher))"
    by (simp add: exampleWatcher_def genDownloadChangeHandler_def example_defs)
  have h3: "(''dl3'', startedResolved) \<in> set (files (store exampleWatcher))"
    by (simp add: exampleWatcher_def genDownloadChangeHandler_def example_defs)
  have f1: "idsFresh exampleWatcher (Startup removalSucceeds (Some ''/downloads''))"
    "idsFresh exampleWatcher (HandlerEvent ''skyrim'' lowerAscii
         (FsEvent ''rename'' (Some ''c.zip'') (StatError ''ENOENT'') ''new1''))"
    "idsFresh exampleWatcher (SpeedDelivered 5)"
    by simp_all
  have f2: "idsFresh exampleWatcher (UpdateDownloadPath examplePathEnv None)"
    by (simp add: examplePathEnv_def exampleWatcher_def genDownloadChangeHandler_def example_defs)
  have r1: "removes exampleLib exampleWatcher (Startup removalSucceeds (Some ''/downloads''))
              ''dl4'' finishedNoPath"
    by (simp add: startupRemoves_def example_defs)
  have r2: "removes exampleLib exampleWatcher (UpdateDownloadPath examplePathEnv None)
              ''dl3'' startedResolved"
    by (simp add: scanRemoves_def examplePathEnv_def exampleWatcher_def genDownloadChangeHandler_def
          downloadNames_def knownDownloads_def buildNameIdMap_def addedDLs_def removedDLs_def
          path_defs example_defs)
  have r3: "removes exampleLib exampleWatcher (HandlerEvent ''skyrim'' lowerAscii
         (FsEvent ''rename'' (Some ''c.zip'') (StatError ''ENOENT'') ''new1'')) ''dl3'' startedResolved"
    by (simp add: exampleWatcher_def genDownloadChangeHandler_def path_defs example_defs)
  have r4: "\<not> removes exampleLib exampleWatcher (SpeedDelivered 5) ''dl3'' startedResolved"
    by simp
  show ?thesis
    using records_removed_only_by [OF h1 h4 f1(1), of exampleLib]
          records_removed_only_by [OF h1 h3 f2, of exampleLib]
          records_removed_only_by [OF h1 h3 f1(2), of exampleLib]
          records_removed_only_by [OF h1 h3 f1(3), of exampleLib]
          r1 r2 r3 r4
    by blast
qed

text \<open>
  C4 as stated fails: the recovery at startup, which is neither a cancel nor a remove
  request, removes the finished record \<open>dl4\<close>, which has no \<open>localPath\<close> and so no
  duplicate at its destination.
\<close>

theorem records_removed_counterexample:
  "map_of (files exampleStore) ''dl4'' = Some finishedNoPath
   \<and> localPath finishedNoPath = None
   \<and> startupActions exampleLib removalSucceeds (Some ''/downloads'') exampleStore =
       [SetDownloadInterrupted ''dl3'' 500, SetDownloadInterrupted ''dl6'' (- 50),
        RemoveDownload ''dl4'', RemoveDownload ''dl2'']
   \<and> map_of (files (startup exampleLib removalSucceeds (Some ''/downloads'') exampleStore)) ''dl4'' = None"
  by (simp add: example_defs startup_defs)

subsection \<open>Update events\<close>

lemma handler_update_idle:
  "updateTimers w = [] \<Longrightarrow> downloadChangeHandler L g nf st newId ''update'' fileName w = w"
  by (simp add: downloadChangeHandler_def split: option.splits)

lemma handler_keeps_timers:
  "updateTimers w = [] \<Longrightarrow>
     updateTimers (downloadChangeHandler L g nf st newId evt fileName w) = [] \<and>
     timeouts (downloadChangeHandler L g nf st newId evt fileName w) = timeouts w \<and>
     clearedTimers (downloadChangeHandler L g nf st newId evt fileName w) = clearedTimers w"
  by (simp add: downloadChangeHandler_def split: option.splits stat_result.splits)

lemma step_keeps_timers:
  assumes "updateTimers w = []" and "timeouts w = []" and "clearedTimers w = []"
  shows "updateTimers (watcherStep L g nf w e) = [] \<and> timeouts (watcherStep L g nf w e) = []
         \<and> clearedTimers (watcherStep L g nf w e) = []"
proof (cases e)
  case (FsEvent evt fileName st newId)
  then show ?thesis using assms handler_keeps_timers [OF assms(1)] by simp
next
  case (TimeoutFires st)
  then show ?thesis using assms by simp
next
  case (EnableDownloadWatch b)
  then show ?thesis using assms by simp
qed

lemma after_keeps_timers:
  "updateTimers w = [] \<Longrightarrow> timeouts w = [] \<Longrightarrow> clearedTimers w = [] \<Longrightarrow>
     updateTimers (watcherAfter L g nf w evs) = [] \<and> timeouts (watcherAfter L g nf w evs) = []
     \<and> clearedTimers (watcherAfter L g nf w evs) = []"
  unfolding watcherAfter_def
proof (induction evs arbitrary: w)
  case Nil
  then show ?case by simp
next
  case (Cons e evs)
  from step_keeps_timers [OF Cons.prems, of L g nf e] Cons.IH [of "watcherStep L g nf w e"]
  show ?case by simp
qed

lemma updates_idle:
  "updateTimers w = [] \<Longrightarrow> timeouts w = [] \<Longrightarrow> \<forall>e \<in> set evs. isUpdateEvent e \<or> (\<exists>st. e = TimeoutFires st) \<Longrightarrow>
     watcherAfter L g nf w evs = w"
  unfolding watcherAfter_def
proof (induction evs)
  case Nil
  then show ?case by simp
next
  case (Cons e evs)
  have "watcherStep L g nf w e = w"
  proof (cases e)
    case (FsEvent evt fileName st newId)
    with Cons.prems(3) have "evt = ''update''" by (simp add: isUpdateEvent_def)
    with FsEvent Cons.prems(1) show ?thesis by (simp add: handler_update_idle)
  next
    case (TimeoutFires st)
    with Cons.prems(2) show ?thesis by simp
  next
    case (EnableDownloadWatch b)
    with Cons.prems(3) show ?thesis by (simp add: isUpdateEvent_def)
  qed
  with Cons show ?case by simp
qed

text \<open>
  C9. Whatever events have reached the handler since genDownloadChangeHandler made it,
  \<open>updateTimers\<close> is empty and no timeout is pending; so an \<open>update\<close> call leaves the
  handler's whole state as it is, and the store is the same after any further sequence of
  \<open>update\<close> calls and timeouts.
\<close>

theorem update_events_dispatch_nothing:
  "updateTimers (watcherAfter L g nf (genDownloadChangeHandler s names enabled) evs) = []
   \<and> timeouts (watcherAfter L g nf (genDownloadChangeHandler s names enabled) evs) = []
   \<and> (\<forall>st newId fileName.
         downloadChangeHandler L g nf st newId ''update'' fileName
           (watcherAfter L g nf (genDownloadChangeHandler s names enabled) evs) =
         watcherAfter L g nf (genDownloadChangeHandler s names enabled) evs)
   \<and> (\<forall>ups. (\<forall>e \<in> set ups. isUpdateEvent e \<or> (\<exists>st. e = TimeoutFires st)) \<longrightarrow>
         store (watcherAfter L g nf
                  (watcherAfter L g nf (genDownloadChangeHandler s names enabled) evs) ups) =
         store (watcherAfter L g nf (genDownloadChangeHandler s names enabled) evs))"
proof -
  let ?w = "watcherAfter L g nf (genDownloadChangeHandler s names enabled) evs"
  have inv: "updateTimers ?w = [] \<and> timeouts ?w = [] \<and> clearedTimers ?w = []"
    by (rule after_keeps_timers) (simp_all add: genDownloadChangeHandler_def)
  then show ?thesis
    by (simp add: handler_update_idle updates_idle)
qed

theorem update_events_dispatch_nothing_witness:
  "store (watcherAfter exampleLib ''skyrim'' lowerAscii
            (watcherAfter exampleLib ''skyrim'' lowerAscii exampleWatcher exampleEvents)
            [FsEvent ''update'' (Some ''c.zip'') (Stats 900 False) ''new3'',
             TimeoutFires (Stats 900 False)]) =
   store (watcherAfter exampleLib ''skyrim'' lowerAscii exampleWatcher exampleEvents)
   \<and> updateTimers (watcherAfter exampleLib ''skyrim'' lowerAscii exampleWatcher exampleEvents) = []"
proof -
  have u: "\<forall>e \<in> set [FsEvent ''update'' (Some ''c.zip'') (Stats 900 False) ''new3'',
             TimeoutFires (Stats 900 False)]. isUpdateEvent e \<or> (\<exists>st. e = TimeoutFires st)"
    by (simp add: isUpdateEvent_def)
  show ?thesis
    using update_events_dispatch_nothing [of exampleLib "''skyrim''" lowerAscii exampleStore
            "[(''a.zip'', ''dl1''), (''c.zip'', ''dl3'')]" True exampleEvents] u
    unfolding exampleWatcher_def by blast
qed

subsection \<open>Known archive extensions\<close>

lemma downloadNames_known: "f \<in> set (downloadNames L statAsync dp entries) \<Longrightarrow> knownArchiveExt L (Some f)"
  by (simp add: downloadNames_def)

lemma downloadNames_filter:
  "downloadNames L statAsync dp (filter (\<lambda>f. knownArchiveExt L (Some f)) entries) =
   downloadNames L statAsync dp entries"
  by (simp add: downloadNames_def)

lemma handler_unknown:
  "\<not> knownArchiveExt L fileName \<Longrightarrow> downloadChangeHandler L g nf st newId evt fileName w = w"
  by (simp add: downloadChangeHandler_def)


text \<open>
  C10. \<open>knownArchiveExt\<close> is false for an undefined and for an empty path, and for any
  other path it says whether the lowered extension of the path is one of the thirteen
  extensions of \<open>archiveExtLookup\<close>. A call of the change handler for a file without a
  known extension changes nothing, and the scan of the download directory does not depend
  on the entries without a known extension: every name it keeps has one, and it gives the
  same names, additions and removals as on the directory without these entries.
\<close>

theorem unknown_extensions_ignored:
  "\<not> knownArchiveExt L None \<and> \<not> knownArchiveExt L (Some [])
   \<and> (\<forall>p. p \<noteq> [] \<longrightarrow>
         knownArchiveExt L (Some p) = (toLowerCase L (extname L p) \<in> set archiveExtLookup))
   \<and> (\<forall>fileName evt st newId w. \<not> knownArchiveExt L fileName \<longrightarrow>
         downloadChangeHandler L g nf st newId evt fileName w = w)
   \<and> (\<forall>f \<in> set (downloadNames L statAsync dp entries). knownArchiveExt L (Some f))
   \<and> downloadNames L statAsync dp entries =
       downloadNames L statAsync dp (filter (\<lambda>f. knownArchiveExt L (Some f)) entries)
   \<and> refreshDownloads L writable (Inr entries) statAsync dp knownDLs nf onAdd onRemove s =
       refreshDownloads L writable (Inr (filter (\<lambda>f. knownArchiveExt L (Some f)) entries))
         statAsync dp knownDLs nf onAdd onRemove s"
proof -
  have k: "\<not> knownArchiveExt L None \<and> \<not> knownArchiveExt L (Some [])
     \<and> (\<forall>p. p \<noteq> [] \<longrightarrow>
         knownArchiveExt L (Some p) = (toLowerCase L (extname L p) \<in> set archiveExtLookup))"
    by (simp add: knownArchiveExt_def truthy_string_def)
  have r: "refreshDownloads L writable (Inr entries) statAsync dp knownDLs nf onAdd onRemove s =
       refreshDownloads L writable (Inr (filter (\<lambda>f. knownArchiveExt L (Some f)) entries))
         statAsync dp knownDLs nf onAdd onRemove s"
    by (cases writable) (simp_all add: refreshDownloads_def downloadNames_filter)
  show ?thesis
    using k r by (simp add: handler_unknown downloadNames_known downloadNames_filter)
qed

theorem unknown_extensions_ignored_witness:
  "knownArchiveExt exampleLib (Some ''New.ZIP'') \<and> \<not> knownArchiveExt exampleLib (Some ''notes.txt'')
   \<and> downloadChangeHandler exampleLib ''skyrim'' lowerAscii (Stats 5 False) ''new1'' ''rename''
        (Some ''notes.txt'') exampleWatcher = exampleWatcher
   \<and> downloadNames exampleLib exampleStat ''/downloads'' exampleEntries = [''a.zip'', ''New.ZIP'']"
proof -
  have n: "\<not> knownArchiveExt exampleLib (Some ''notes.txt'')"
    "knownArchiveExt exampleLib (Some ''New.ZIP'')"
    by (simp_all add: path_defs example_defs)
  have f: "filter (\<lambda>f. knownArchiveExt exampleLib (Some f)) exampleEntries =
             [''a.zip'', ''sub.7z'', ''New.ZIP'', ''gone.rar'']"
    by (simp add: exampleEntries_def path_defs example_defs)
  have d: "downloadNames exampleLib exampleStat ''/downloads'' [''a.zip'', ''sub.7z'', ''New.ZIP'', ''gone.rar'']
             = [''a.zip'', ''New.ZIP'']"
    by (simp add: downloadNames_def exampleStat_def path_defs example_defs)
  show ?thesis
    using unknown_extensions_ignored [of exampleLib "''skyrim''" lowerAscii exampleStat
            "''/downloads''" exampleEntries None "[]" "\<lambda>n s. Inr s" "\<lambda>n s. Inr s" "()"] n
    by (simp add: f d)
qed

subsection \<open>The reported speed\<close>







subsection \<open>The speed history is reported at most once per interval\<close>

lemma spaced_snoc:
  "spaced k ts \<Longrightarrow> \<forall>t \<in> set ts. t + k \<le> u \<Longrightarrow> spaced k (ts @ [u])"
  by (induction k ts rule: spaced.induct) auto

lemma spaced_head: "spaced k (t # ts) \<Longrightarrow> \<forall>u \<in> set ts. t + k \<le> u"
proof (induction ts arbitrary: t)
  case Nil
  then show ?case by simp
next
  case (Cons a ts)
  then have "t + k \<le> a" "spaced k (a # ts)" by simp_all
  with Cons.IH [of a] show ?case by fastforce
qed

lemma spaced_tail: "spaced k (t # ts) \<Longrightarrow> spaced k ts"
  by (cases ts) simp_all

lemma spaced_window:
  "spaced k ts \<Longrightarrow> length (filter (\<lambda>t. a \<le> t \<and> t < a + k) ts) \<le> 1"
proof (induction ts)
  case Nil
  then show ?case by simp
next
  case (Cons t ts)
  from Cons.prems have tl: "spaced k ts" by (rule spaced_tail)
  show ?case
  proof (cases "a \<le> t \<and> t < a + k")
    case True
    from spaced_head [OF Cons.prems] True
    have "filter (\<lambda>t. a \<le> t \<and> t < a + k) ts = []"
      by (intro filter_none) fastforce
    with True show ?thesis by simp
  next
    case False
    with Cons.IH [OF tl] show ?thesis by auto
  qed
qed

lemma throttled_init: "throttled n (initReporter s)"
  by (simp add: throttled_def initReporter_def reportTimes_def newDebouncer_def)

lemma throttled_elapse:
  assumes "throttled n r" and "n \<le> now"
  shows "throttled now (elapse now r)"
proof (cases "timer (speedsDebouncer r)")
  case None
  with assms show ?thesis by (fastforce simp: throttled_def elapse_def)
next
  case (Some due)
  show ?thesis
  proof (cases "due \<le> now")
    case True
    have rt: "reportTimes (elapse now r) = reportTimes r @ [due]"
      using Some True by (simp add: elapse_def reportTimes_def isSpeedsReport_def)
    have "spaced 10000 (reportTimes r @ [due])"
      using assms(1) Some by (intro spaced_snoc) (auto simp: throttled_def)
    moreover have "\<forall>t \<in> set (reportTimes r @ [due]). t \<le> now"
      using assms True by (fastforce simp: throttled_def)
    moreover have "timer (speedsDebouncer (elapse now r)) = None"
      "debounceMS (speedsDebouncer (elapse now r)) = 10000"
      using assms(1) Some True by (simp_all add: elapse_def throttled_def)
    ultimately show ?thesis unfolding throttled_def rt by simp
  next
    case False
    with Some have "elapse now r = r" by (simp add: elapse_def)
    with assms show ?thesis by (fastforce simp: throttled_def)
  qed
qed

lemma throttled_onSpeed:
  assumes "throttled n r" and "n \<le> now"
  shows "throttled now (onSpeed now v r)"
proof -
  let ?r1 = "elapse now r"
  have t1: "throttled now ?r1" using assms by (rule throttled_elapse)
  have rt: "reportTimes (onSpeed now v r) = reportTimes ?r1"
    by (simp add: onSpeed_def Let_def reportTimes_def isSpeedsReport_def split: prod.splits)
  have ms: "debounceMS (speedsDebouncer (onSpeed now v r)) = 10000"
    using t1 by (simp add: onSpeed_def Let_def schedule_def throttled_def split: prod.splits option.splits)
  have due: "\<And>due. timer (speedsDebouncer (onSpeed now v r)) = Some due \<Longrightarrow>
               timer (speedsDebouncer ?r1) = Some due \<or> due = now + 10000"
    using t1 by (auto simp: onSpeed_def Let_def schedule_def throttled_def split: prod.splits option.splits if_splits)
  show ?thesis
    unfolding throttled_def rt
  proof (intro conjI allI impI)
    show "spaced 10000 (reportTimes ?r1)" using t1 by (simp add: throttled_def)
    show "\<forall>t \<in> set (reportTimes ?r1). t \<le> now" using t1 by (simp add: throttled_def)
    show "debounceMS (speedsDebouncer (onSpeed now v r)) = 10000" by (rule ms)
  next
    fix d assume "timer (speedsDebouncer (onSpeed now v r)) = Some d"
    from due [OF this] show "\<forall>t \<in> set (reportTimes ?r1). t + 10000 \<le> d"
    proof
      assume "timer (speedsDebouncer ?r1) = Some d"
      with t1 show ?thesis by (simp add: throttled_def)
    next
      assume "d = now + 10000"
      with t1 show ?thesis by (fastforce simp: throttled_def)
    qed
  qed
qed

lemma throttled_after:
  "throttled n r \<Longrightarrow> sorted (map fst calls) \<Longrightarrow> \<forall>c \<in> set calls. n \<le> fst c \<Longrightarrow>
     \<exists>m. throttled m (reporterAfter calls r) \<and> (\<forall>c \<in> set calls. fst c \<le> m) \<and> n \<le> m"
  unfolding reporterAfter_def
proof (induction calls arbitrary: n r)
  case Nil
  then show ?case by auto
next
  case (Cons c calls)
  obtain now v where c: "c = (now, v)" by (cases c)
  from Cons.prems c have le: "n \<le> now" by simp
  have t: "throttled now (onSpeed now v r)"
    using Cons.prems(1) le by (rule throttled_onSpeed)
  from Cons.prems(2) c have s: "sorted (map fst calls)" and ge: "\<forall>d \<in> set calls. now \<le> fst d"
    by auto
  from Cons.IH [OF t s ge] obtain m where
    m: "throttled m (foldl (\<lambda>r (now, v). onSpeed now v r) (onSpeed now v r) calls)"
       "\<forall>c \<in> set calls. fst c \<le> m" "now \<le> m" by blast
  show ?case
    using m le c by (intro exI [of _ m]) auto
qed

lemma armedBy_init: "armedBy C (initReporter s)"
  by (simp add: armedBy_def initReporter_def reportTimes_def newDebouncer_def)

lemma armedBy_mono: "armedBy C r \<Longrightarrow> C \<subseteq> D \<Longrightarrow> armedBy D r"
  unfolding armedBy_def by blast

lemma armedBy_elapse:
  assumes "armedBy C r"
  shows "armedBy C (elapse now r)"
proof (cases "timer (speedsDebouncer r)")
  case None
  with assms show ?thesis by (simp add: elapse_def)
next
  case (Some due)
  show ?thesis
  proof (cases "due \<le> now")
    case True
    have rt: "reportTimes (elapse now r) = reportTimes r @ [due]"
      using Some True by (simp add: elapse_def reportTimes_def isSpeedsReport_def)
    have "timer (speedsDebouncer (elapse now r)) = None"
      "debounceMS (speedsDebouncer (elapse now r)) = 10000"
      using assms Some True by (simp_all add: elapse_def armedBy_def)
    then show ?thesis
      using assms Some unfolding armedBy_def rt by auto
  next
    case False
    with Some have "elapse now r = r" by (simp add: elapse_def)
    with assms show ?thesis by simp
  qed
qed

lemma armedBy_onSpeed:
  assumes "armedBy C r"
  shows "armedBy (insert now C) (onSpeed now v r)"
proof -
  let ?r1 = "elapse now r"
  have a1: "armedBy (insert now C) ?r1"
    using armedBy_elapse [OF assms] by (rule armedBy_mono) auto
  have rt: "reportTimes (onSpeed now v r) = reportTimes ?r1"
    by (simp add: onSpeed_def Let_def reportTimes_def isSpeedsReport_def split: prod.splits)
  have ms: "debounceMS (speedsDebouncer (onSpeed now v r)) = 10000"
    using a1 by (simp add: onSpeed_def Let_def schedule_def armedBy_def split: prod.splits option.splits)
  have due: "\<And>due. timer (speedsDebouncer (onSpeed now v r)) = Some due \<Longrightarrow>
               timer (speedsDebouncer ?r1) = Some due \<or> due = now + 10000"
    using a1 by (auto simp: onSpeed_def Let_def schedule_def armedBy_def split: prod.splits option.splits if_splits)
  show ?thesis
    unfolding armedBy_def rt
  proof (intro conjI allI impI)
    show "\<forall>t \<in> set (reportTimes ?r1). \<exists>c \<in> insert now C. t = c + 10000"
      using a1 by (simp add: armedBy_def)
    show "debounceMS (speedsDebouncer (onSpeed now v r)) = 10000" by (rule ms)
  next
    fix d assume "timer (speedsDebouncer (onSpeed now v r)) = Some d"
    from due [OF this] show "\<exists>c \<in> insert now C. d = c + 10000"
    proof
      assume "timer (speedsDebouncer ?r1) = Some d"
      with a1 show ?thesis unfolding armedBy_def by blast
    next
      assume "d = now + 10000"
      then show ?thesis by simp
    qed
  qed
qed

lemma armedBy_after:
  "armedBy C r \<Longrightarrow> armedBy (C \<union> fst ` set calls) (reporterAfter calls r)"
  unfolding reporterAfter_def
proof (induction calls arbitrary: C r)
  case Nil
  then show ?case by simp
next
  case (Cons c calls)
  obtain now v where c: "c = (now, v)" by (cases c)
  have "armedBy (insert now C) (onSpeed now v r)"
    using Cons.prems by (rule armedBy_onSpeed)
  from Cons.IH [OF this] show ?case
    by (simp add: c Un_commute insert_commute)
qed

text \<open>
  C6. Let the download manager deliver speeds at the times of \<open>calls\<close>, in order, and let
  time pass until \<open>T\<close>. The dispatches of the speed history are at least 10000 ms apart:
  any window of 10000 ms holds at most one of them, however many calls fall into it. None
  happens at a call: each comes 10000 ms after a call.
\<close>

theorem speed_history_throttled:
  assumes "sorted (map fst calls)" and "\<forall>c \<in> set calls. fst c \<le> T"
  shows "spaced 10000 (reportTimes (elapse T (reporterAfter calls (initReporter s))))
       \<and> (\<forall>a. length (filter (\<lambda>t. a \<le> t \<and> t < a + 10000)
               (reportTimes (elapse T (reporterAfter calls (initReporter s))))) \<le> 1)
       \<and> (\<forall>t \<in> set (reportTimes (elapse T (reporterAfter calls (initReporter s)))).
             \<exists>c \<in> set calls. t = fst c + 10000)"
proof -
  let ?r = "reporterAfter calls (initReporter s)"
  have "\<forall>c \<in> set calls. 0 \<le> fst c" by simp
  from throttled_after [OF throttled_init assms(1) this, of s]
  obtain m where m: "throttled m ?r" "\<forall>c \<in> set calls. fst c \<le> m" by blast
  have sp: "spaced 10000 (reportTimes (elapse T ?r))"
  proof (cases "m \<le> T")
    case True
    with m(1) have "throttled T (elapse T ?r)" by (rule throttled_elapse)
    then show ?thesis by (simp add: throttled_def)
  next
    case False
    then have "T \<le> m" by simp
    have "throttled (max m T) (elapse (max m T) ?r)"
      using m(1) by (rule throttled_elapse) simp
    moreover have "elapse T ?r = ?r \<or> elapse T ?r = elapse (max m T) ?r"
      by (auto simp: elapse_def split: option.splits)
    ultimately show ?thesis using m(1) by (auto simp: throttled_def)
  qed
  have "armedBy ({} \<union> fst ` set calls) ?r"
    using armedBy_init by (rule armedBy_after)
  then have "armedBy (fst ` set calls) (elapse T ?r)"
    using armedBy_elapse by simp
  then have src: "\<forall>t \<in> set (reportTimes (elapse T ?r)). \<exists>c \<in> set calls. t = fst c + 10000"
    unfolding armedBy_def by blast
  from sp src spaced_window [OF sp] show ?thesis by blast
qed

lemmas reporter_defs =
  reporterAfter_def onSpeed_def elapse_def schedule_def initReporter_def newDebouncer_def
  speedCallback_def dispatch_def reportTimes_def isSpeedsReport_def exampleCalls_def

theorem speed_history_throttled_witness:
  "reportTimes (elapse 100000 (reporterAfter exampleCalls (initReporter exampleStore))) =
     [10000, 20000, 40000]
   \<and> spaced 10000 (reportTimes (elapse 100000 (reporterAfter exampleCalls (initReporter exampleStore))))"
proof -
  have h1: "sorted (map fst exampleCalls)" by (simp add: exampleCalls_def)
  have h2: "\<forall>c \<in> set exampleCalls. fst c \<le> 100000" by (simp add: exampleCalls_def)
  have v: "reportTimes (elapse 100000 (reporterAfter exampleCalls (initReporter exampleStore))) =
     [10000, 20000, 40000]"
    by (simp add: reporter_defs exampleStore_def)
  show ?thesis
    using speed_history_throttled [OF h1 h2, of exampleStore] v by simp
qed

end
